theory Spec2Isabelle
  imports Complex_Main "HOL-Library.Word"
begin

section \<open>MineFlow UI: grid indexing, statistics, render set and surface mesh\<close>

text \<open>
  A shallow embedding of the block-model library (\<^verbatim>\<open>getBlockIndex\<close>,
  \<^verbatim>\<open>getBlockCoords\<close>, \<^verbatim>\<open>valueToColor\<close>, \<^verbatim>\<open>isBoundaryBlock\<close>,
  \<^verbatim>\<open>calculateStats\<close>), of the file parser (\<^verbatim>\<open>parseDatFile\<close>), of the render-set
  and surface-mesh builders of \<^verbatim>\<open>Visualization3D.tsx\<close> and of the output-file loop of
  \<^verbatim>\<open>runMineflow\<close>.

  JavaScript numbers that hold block indices, coordinates and counts are modelled as
  \<open>int\<close> or \<open>nat\<close> (exact below \<open>2 ^ 53\<close>); numbers that can leave the finite range
  (a quotient, a minimum started at \<open>Infinity\<close>) are modelled by \<open>jsnum\<close> below.
\<close>

subsection \<open>Typed arrays\<close>

type_synonym int32 = "32 word"
type_synonym uint8 = "8 word"

text \<open>Reading a typed array out of range yields \<^verbatim>\<open>undefined\<close>: \<open>None\<close> here.\<close>

definition arr_get :: "'a list \<Rightarrow> int \<Rightarrow> 'a option" where
  "arr_get xs i = (if 0 \<le> i \<and> i < int (length xs) then Some (xs ! nat i) else None)"

text \<open>\<^verbatim>\<open>!minedBlocks[i]\<close>: true for \<^verbatim>\<open>undefined\<close> and for \<open>0\<close>.\<close>

definition falsy_at :: "uint8 list \<Rightarrow> int \<Rightarrow> bool" where
  "falsy_at arr i = (case arr_get arr i of None \<Rightarrow> True | Some v \<Rightarrow> v = 0)"

text \<open>\<^verbatim>\<open>minedBlocks[i] === 1\<close>.\<close>

definition is_one_at :: "uint8 list \<Rightarrow> int \<Rightarrow> bool" where
  "is_one_at arr i = (arr_get arr i = Some 1)"

subsection \<open>The block model\<close>

record BlockModel =
  nx :: int
  ny :: int
  nz :: int
  block_values :: "int32 list"

record Coords =
  cx :: int
  cy :: int
  cz :: int

text \<open>The \<^verbatim>\<open>%\<close> of JavaScript truncates: the result has the sign of the dividend.\<close>

definition js_rem :: "int \<Rightarrow> int \<Rightarrow> int" where
  "js_rem a b = sgn a * (\<bar>a\<bar> mod \<bar>b\<bar>)"

definition getBlockIndex :: "int \<Rightarrow> int \<Rightarrow> int \<Rightarrow> int \<Rightarrow> int \<Rightarrow> int" where
  "getBlockIndex x y z nx' ny' = x + y * nx' + z * nx' * ny'"

text \<open>
  \<^verbatim>\<open>Math.floor(index / nx)\<close> is the floor division \<open>div\<close> of \<open>int\<close>. For a zero
  \<^verbatim>\<open>nx\<close> or \<^verbatim>\<open>ny\<close> the source computes \<^verbatim>\<open>NaN\<close> or an infinity, which \<open>int\<close>
  does not hold: every theorem below takes the dimensions positive.
\<close>

definition getBlockCoords :: "int \<Rightarrow> int \<Rightarrow> int \<Rightarrow> Coords" where
  "getBlockCoords index nx' ny' =
     \<lparr>cx = js_rem index nx',
      cy = js_rem (index div nx') ny',
      cz = index div (nx' * ny')\<rparr>"

definition neighbors :: "Coords \<Rightarrow> Coords list" where
  "neighbors c =
     [\<lparr>cx = cx c - 1, cy = cy c, cz = cz c\<rparr>,
      \<lparr>cx = cx c + 1, cy = cy c, cz = cz c\<rparr>,
      \<lparr>cx = cx c, cy = cy c - 1, cz = cz c\<rparr>,
      \<lparr>cx = cx c, cy = cy c + 1, cz = cz c\<rparr>,
      \<lparr>cx = cx c, cy = cy c, cz = cz c - 1\<rparr>,
      \<lparr>cx = cx c, cy = cy c, cz = cz c + 1\<rparr>]"

definition out_of_bounds :: "BlockModel \<Rightarrow> Coords \<Rightarrow> bool" where
  "out_of_bounds m c =
     (cx c < 0 \<or> cx c \<ge> nx m \<or> cy c < 0 \<or> cy c \<ge> ny m \<or> cz c < 0 \<or> cz c \<ge> nz m)"

text \<open>The loop over the six neighbours: \<^verbatim>\<open>continue\<close> out of bounds, \<^verbatim>\<open>return true\<close>
  at the first unmined neighbour.\<close>

fun neighbor_loop :: "BlockModel \<Rightarrow> uint8 list \<Rightarrow> Coords list \<Rightarrow> bool" where
  "neighbor_loop m mined [] = False"
| "neighbor_loop m mined (n # ns) =
     (if out_of_bounds m n then neighbor_loop m mined ns
      else if falsy_at mined (getBlockIndex (cx n) (cy n) (cz n) (nx m) (ny m)) then True
      else neighbor_loop m mined ns)"

definition isBoundaryBlock :: "int \<Rightarrow> BlockModel \<Rightarrow> uint8 list \<Rightarrow> bool" where
  "isBoundaryBlock index m mined =
     (if falsy_at mined index then False
      else neighbor_loop m mined (neighbors (getBlockCoords index (nx m) (ny m))))"

subsection \<open>JavaScript numbers beyond the integers\<close>

text \<open>
  A double is modelled as an exact rational, one of the two infinities, or \<^verbatim>\<open>NaN\<close>:
  the special values of IEEE arithmetic are kept, its rounding is not. There is one zero
  (a zero divisor is \<open>+0\<close>, as \<^verbatim>\<open>Math.max\<close> of two absolute values is).
\<close>

datatype jsnum = Num rat | PosInf | NegInf | NaN

definition inf_of_sign :: "rat \<Rightarrow> jsnum" where
  "inf_of_sign s = (if 0 < s then PosInf else if s < 0 then NegInf else NaN)"

fun js_neg :: "jsnum \<Rightarrow> jsnum" where
  "js_neg (Num a) = Num (- a)"
| "js_neg PosInf = NegInf"
| "js_neg NegInf = PosInf"
| "js_neg NaN = NaN"

fun js_abs :: "jsnum \<Rightarrow> jsnum" where
  "js_abs (Num a) = Num \<bar>a\<bar>"
| "js_abs PosInf = PosInf"
| "js_abs NegInf = PosInf"
| "js_abs NaN = NaN"

fun js_add :: "jsnum \<Rightarrow> jsnum \<Rightarrow> jsnum" where
  "js_add (Num a) (Num b) = Num (a + b)"
| "js_add (Num a) PosInf = PosInf"
| "js_add (Num a) NegInf = NegInf"
| "js_add PosInf (Num b) = PosInf"
| "js_add PosInf PosInf = PosInf"
| "js_add PosInf NegInf = NaN"
| "js_add NegInf (Num b) = NegInf"
| "js_add NegInf PosInf = NaN"
| "js_add NegInf NegInf = NegInf"
| "js_add NaN y = NaN"
| "js_add x NaN = NaN"

definition js_sub :: "jsnum \<Rightarrow> jsnum \<Rightarrow> jsnum" where
  "js_sub x y = js_add x (js_neg y)"

fun js_mul :: "jsnum \<Rightarrow> jsnum \<Rightarrow> jsnum" where
  "js_mul (Num a) (Num b) = Num (a * b)"
| "js_mul (Num a) PosInf = inf_of_sign a"
| "js_mul (Num a) NegInf = inf_of_sign (- a)"
| "js_mul PosInf (Num b) = inf_of_sign b"
| "js_mul PosInf PosInf = PosInf"
| "js_mul PosInf NegInf = NegInf"
| "js_mul NegInf (Num b) = inf_of_sign (- b)"
| "js_mul NegInf PosInf = NegInf"
| "js_mul NegInf NegInf = PosInf"
| "js_mul NaN y = NaN"
| "js_mul x NaN = NaN"

fun js_div :: "jsnum \<Rightarrow> jsnum \<Rightarrow> jsnum" where
  "js_div (Num a) (Num b) = (if b = 0 then inf_of_sign a else Num (a / b))"
| "js_div (Num a) PosInf = Num 0"
| "js_div (Num a) NegInf = Num 0"
| "js_div PosInf (Num b) = (if 0 \<le> b then PosInf else NegInf)"
| "js_div NegInf (Num b) = (if 0 \<le> b then NegInf else PosInf)"
| "js_div PosInf PosInf = NaN"
| "js_div PosInf NegInf = NaN"
| "js_div NegInf PosInf = NaN"
| "js_div NegInf NegInf = NaN"
| "js_div NaN y = NaN"
| "js_div x NaN = NaN"

text \<open>\<^verbatim>\<open>x < y\<close>: false as soon as one side is \<^verbatim>\<open>NaN\<close>.\<close>

fun js_lt :: "jsnum \<Rightarrow> jsnum \<Rightarrow> bool" where
  "js_lt (Num a) (Num b) = (a < b)"
| "js_lt (Num a) PosInf = True"
| "js_lt NegInf (Num b) = True"
| "js_lt NegInf PosInf = True"
| "js_lt x y = False"

text \<open>\<^verbatim>\<open>Math.min\<close> and \<^verbatim>\<open>Math.max\<close>: \<^verbatim>\<open>NaN\<close> as soon as one argument is.\<close>

definition js_min :: "jsnum \<Rightarrow> jsnum \<Rightarrow> jsnum" where
  "js_min x y = (if x = NaN \<or> y = NaN then NaN else if js_lt y x then y else x)"

definition js_max :: "jsnum \<Rightarrow> jsnum \<Rightarrow> jsnum" where
  "js_max x y = (if x = NaN \<or> y = NaN then NaN else if js_lt x y then y else x)"

subsection \<open>Colour by value\<close>

text \<open>\<^verbatim>\<open>new THREE.Color(r, g, b)\<close> stores the three channels as given.\<close>

datatype Color = Color jsnum jsnum jsnum

definition valueToColor :: "jsnum \<Rightarrow> jsnum \<Rightarrow> Color" where
  "valueToColor v maxAbs =
     (let normalized = js_div v maxAbs in
      if js_lt normalized (Num 0) then
        (let t = js_abs normalized in
         if js_lt t (Num (1 / 2)) then
           (let s = js_mul t (Num 2) in
            Color (js_add (Num (1 / 2)) (js_mul s (Num (1 / 2)))) (Num 0) (Num 0))
         else
           (let s = js_mul (js_sub t (Num (1 / 2))) (Num 2) in
            Color (Num 1) (js_mul s (Num (2 / 5))) (Num 0)))
      else
        (let t = normalized in
         if js_lt t (Num (33 / 100)) then
           (let s = js_div t (Num (33 / 100)) in
            Color (js_sub (Num 1) (js_mul s (Num (1 / 2)))) (Num 1) (Num 0))
         else if js_lt t (Num (67 / 100)) then
           (let s = js_div (js_sub t (Num (33 / 100))) (Num (34 / 100)) in
            Color (js_sub (Num (1 / 2)) (js_mul s (Num (1 / 2)))) (Num 1) (js_mul s (Num 1)))
         else
           (let s = js_div (js_sub t (Num (67 / 100))) (Num (33 / 100)) in
            Color (Num 0) (js_sub (Num 1) (js_mul s (Num (1 / 2)))) (Num 1))))"

text \<open>Two channels, and two colours, agree within a tolerance; \<^verbatim>\<open>NaN\<close> and the
  infinities are within no tolerance of anything.\<close>

fun js_within :: "rat \<Rightarrow> jsnum \<Rightarrow> jsnum \<Rightarrow> bool" where
  "js_within e (Num a) (Num b) = (\<bar>a - b\<bar> \<le> e)"
| "js_within e x y = False"

fun colors_within :: "rat \<Rightarrow> Color \<Rightarrow> Color \<Rightarrow> bool" where
  "colors_within e (Color r1 g1 b1) (Color r2 g2 b2) =
     (js_within e r1 r2 \<and> js_within e g1 g2 \<and> js_within e b1 b2)"

subsection \<open>Statistics\<close>

text \<open>The variables of the loop of \<^verbatim>\<open>calculateStats\<close>.\<close>

record StatsVars =
  minValue' :: jsnum
  maxValue' :: jsnum
  totalValue' :: int
  positiveCount' :: nat
  negativeCount' :: nat
  minedValue' :: int
  minedCount' :: nat

record Stats =
  minValue :: jsnum
  maxValue :: jsnum
  maxAbsValue :: jsnum
  totalValue :: int
  averageValue :: jsnum
  positiveCount :: nat
  negativeCount :: nat
  minedValue :: int
  minedCount :: nat

definition stats_init :: StatsVars where
  "stats_init =
     \<lparr>minValue' = PosInf, maxValue' = NegInf, totalValue' = 0, positiveCount' = 0,
      negativeCount' = 0, minedValue' = 0, minedCount' = 0\<rparr>"

text \<open>One round of the loop, at index \<open>i\<close> below \<^verbatim>\<open>model.values.length\<close>.\<close>

definition stats_step :: "BlockModel \<Rightarrow> uint8 list option \<Rightarrow> StatsVars \<Rightarrow> nat \<Rightarrow> StatsVars" where
  "stats_step m mined a i =
     (let v = sint (block_values m ! i);
          a1 = a\<lparr>minValue' := js_min (minValue' a) (Num (of_int v)),
                 maxValue' := js_max (maxValue' a) (Num (of_int v)),
                 totalValue' := totalValue' a + v\<rparr>;
          a2 = (if 0 < v then a1\<lparr>positiveCount' := positiveCount' a1 + 1\<rparr> else a1);
          a3 = (if v < 0 then a2\<lparr>negativeCount' := negativeCount' a2 + 1\<rparr> else a2)
      in case mined of
           None \<Rightarrow> a3
         | Some mb \<Rightarrow>
             if is_one_at mb (int i)
             then a3\<lparr>minedValue' := minedValue' a3 + v, minedCount' := minedCount' a3 + 1\<rparr>
             else a3)"

definition calculateStats :: "BlockModel \<Rightarrow> uint8 list option \<Rightarrow> Stats" where
  "calculateStats m mined =
     (let a = foldl (stats_step m mined) stats_init [0..<length (block_values m)] in
      \<lparr>minValue = minValue' a,
       maxValue = maxValue' a,
       maxAbsValue = js_max (js_abs (minValue' a)) (js_abs (maxValue' a)),
       totalValue = totalValue' a,
       averageValue = js_div (Num (of_int (totalValue' a)))
                        (Num (of_nat (length (block_values m)))),
       positiveCount = positiveCount' a,
       negativeCount = negativeCount' a,
       minedValue = minedValue' a,
       minedCount = minedCount' a\<rparr>)"

text \<open>The loop variables after \<open>k\<close> rounds.\<close>

definition stats_upto :: "BlockModel \<Rightarrow> uint8 list option \<Rightarrow> nat \<Rightarrow> StatsVars" where
  "stats_upto m mined k = foldl (stats_step m mined) stats_init [0..<k]"

subsection \<open>The render set of block instances\<close>

datatype ViewMode = All | Mined | Unmined
datatype ColorScheme = ByValue | ByMined
datatype SliceDimension = X | Y | Z

text \<open>The properties of \<^verbatim>\<open>Visualization3D\<close>, handed on to \<^verbatim>\<open>BlockInstances\<close>
  (\<^verbatim>\<open>solveCount\<close> and the hover callback do not enter the result).\<close>

record ViewProps =
  blockModel :: BlockModel
  minedBlocks :: "uint8 list option"
  viewMode :: ViewMode
  currentLayer :: "int option"
  sliceDimension :: SliceDimension
  colorScheme :: ColorScheme
  showWireframe :: bool

definition MAX_BLOCKS_TO_RENDER :: nat where
  "MAX_BLOCKS_TO_RENDER = 100000"

text \<open>\<^verbatim>\<open>Math.ceil(a / b)\<close> on two counts.\<close>

definition ceil_div :: "nat \<Rightarrow> nat \<Rightarrow> nat" where
  "ceil_div a b = nat \<lceil>(of_nat a :: rat) / of_nat b\<rceil>"

definition skipFactor :: "ViewProps \<Rightarrow> nat" where
  "skipFactor p =
     (let totalBlocks = length (block_values (blockModel p));
          isFilteredView = (viewMode p \<noteq> All);
          isCrossSection = (currentLayer p \<noteq> None)
      in if \<not> isFilteredView \<and> \<not> isCrossSection \<and> totalBlocks > MAX_BLOCKS_TO_RENDER
         then ceil_div totalBlocks MAX_BLOCKS_TO_RENDER
         else 1)"

text \<open>The \<^verbatim>\<open>continue\<close> statements of the loop body: the layer filter, then (with a
  mask) the view-mode and surface-only filters.\<close>

definition skip_block :: "ViewProps \<Rightarrow> nat \<Rightarrow> bool" where
  "skip_block p i =
     (let coords = getBlockCoords (int i) (nx (blockModel p)) (ny (blockModel p)) in
      (case currentLayer p of
         None \<Rightarrow> False
       | Some layer \<Rightarrow>
           (case sliceDimension p of X \<Rightarrow> cx coords | Y \<Rightarrow> cy coords | Z \<Rightarrow> cz coords)
             \<noteq> layer) \<or>
      (case minedBlocks p of
         None \<Rightarrow> False
       | Some mb \<Rightarrow>
           (let isMined = is_one_at mb (int i) in
            (showWireframe p \<and> \<not> isMined) \<or>
            (viewMode p = Mined \<and> \<not> isMined) \<or>
            (viewMode p = Unmined \<and> isMined) \<or>
            (showWireframe p \<and> isMined \<and> \<not> isBoundaryBlock (int i) (blockModel p) mb))))"

text \<open>\<^verbatim>\<open>color.setHex(h)\<close>: the three bytes of \<open>h\<close>, each over 255 (the colour
  management of the library is not modelled).\<close>

definition setHex :: "nat \<Rightarrow> Color" where
  "setHex h =
     Color (Num (of_nat (h div 65536 mod 256) / 255))
           (Num (of_nat (h div 256 mod 256) / 255))
           (Num (of_nat (h mod 256) / 255))"

fun channels :: "Color \<Rightarrow> jsnum list" where
  "channels (Color r g b) = [r, g, b]"

definition instance_color :: "ViewProps \<Rightarrow> Stats \<Rightarrow> nat \<Rightarrow> Color" where
  "instance_color p stats i =
     (case (colorScheme p, minedBlocks p) of
        (ByMined, Some mb) \<Rightarrow>
          if is_one_at mb (int i) then setHex 0x22c55e else setHex 0x3f3f46
      | _ \<Rightarrow>
          valueToColor (Num (of_int (sint (block_values (blockModel p) ! i))))
            (maxAbsValue stats))"

text \<open>The render position: centred, with the model's \<open>z\<close> as the second (up) axis.\<close>

definition render_position :: "BlockModel \<Rightarrow> Coords \<Rightarrow> rat list" where
  "render_position m c =
     [of_int (cx c) - of_int (nx m) / 2,
      of_int (cz c) - of_int (nz m) / 2,
      of_int (cy c) - of_int (ny m) / 2]"

record RenderVars =
  tempPositions :: "rat list"
  tempColors :: "jsnum list"
  indexMapping :: "nat list"
  blocksRendered :: nat

definition emit_block :: "ViewProps \<Rightarrow> Stats \<Rightarrow> nat \<Rightarrow> RenderVars \<Rightarrow> RenderVars" where
  "emit_block p stats i st =
     \<lparr>tempPositions = tempPositions st @
        render_position (blockModel p)
          (getBlockCoords (int i) (nx (blockModel p)) (ny (blockModel p))),
      tempColors = tempColors st @ channels (instance_color p stats i),
      indexMapping = indexMapping st @ [i],
      blocksRendered = blocksRendered st + 1\<rparr>"

lemma skipFactor_pos: "0 < skipFactor p"
  by (auto simp add: skipFactor_def ceil_div_def Let_def MAX_BLOCKS_TO_RENDER_def)

text \<open>The loop \<^verbatim>\<open>for (let i = 0; i < blockModel.values.length; i += skipFactor)\<close>, from
  index \<open>i\<close> on: it stops at the cap unless a layer is selected.\<close>

function render_loop :: "ViewProps \<Rightarrow> Stats \<Rightarrow> nat \<Rightarrow> RenderVars \<Rightarrow> RenderVars" where
  "render_loop p stats i st =
     (if i < length (block_values (blockModel p)) then
        (if currentLayer p = None \<and> blocksRendered st \<ge> MAX_BLOCKS_TO_RENDER then st
         else if skip_block p i then render_loop p stats (i + skipFactor p) st
         else render_loop p stats (i + skipFactor p) (emit_block p stats i st))
      else st)"
  by pat_completeness auto
termination
  by (relation "measure (\<lambda>(p, stats, i, st). length (block_values (blockModel p)) - i)")
    (use skipFactor_pos in \<open>auto simp add: diff_less_mono2\<close>)

declare render_loop.simps [simp del]

record RenderSet =
  positions :: "rat list"
  colors :: "jsnum list"
  count :: nat
  isLimited :: bool
  instanceToBlockIndex :: "nat list"

text \<open>The memoised value of \<^verbatim>\<open>BlockInstances\<close> (the conversion of the two number
  arrays to 32-bit floats is not modelled).\<close>

definition BlockInstances :: "ViewProps \<Rightarrow> RenderSet" where
  "BlockInstances p =
     (let stats = calculateStats (blockModel p) (minedBlocks p);
          st = render_loop p stats 0
                 \<lparr>tempPositions = [], tempColors = [], indexMapping = [], blocksRendered = 0\<rparr>
      in \<lparr>positions = tempPositions st,
          colors = tempColors st,
          count = blocksRendered st,
          isLimited = (skipFactor p > 1 \<and> currentLayer p = None),
          instanceToBlockIndex = indexMapping st\<rparr>)"

text \<open>Every \<open>s\<close>-th index from \<open>i\<close> on, below \<open>n\<close>, in ascending order; and those of
  them that the loop body does not skip.\<close>

definition stride_indices :: "nat \<Rightarrow> nat \<Rightarrow> nat \<Rightarrow> nat list" where
  "stride_indices s i n = map (\<lambda>k. i + k * s) [0..<ceil_div (n - i) s]"

definition shown_from :: "ViewProps \<Rightarrow> nat \<Rightarrow> nat list" where
  "shown_from p i =
     filter (\<lambda>j. \<not> skip_block p j)
       (stride_indices (skipFactor p) i (length (block_values (blockModel p))))"

text \<open>Two inputs for the examples below: a model of 250000 blocks, and the 2x2x1 model
  with the mask \<open>[1,1,0,1]\<close>.\<close>

definition big_props :: ViewProps where
  "big_props = \<lparr>blockModel = \<lparr>nx = 100, ny = 50, nz = 50, block_values = replicate 250000 0\<rparr>,
     minedBlocks = None, viewMode = All, currentLayer = None, sliceDimension = Z,
     colorScheme = ByValue, showWireframe = False\<rparr>"

definition scenario_props :: ViewProps where
  "scenario_props =
     \<lparr>blockModel = \<lparr>nx = 2, ny = 2, nz = 1, block_values = [10, - 5, 3, - 1]\<rparr>,
      minedBlocks = Some [1, 1, 0, 1], viewMode = All, currentLayer = None,
      sliceDimension = Y, colorScheme = ByValue, showWireframe = False\<rparr>"

subsection \<open>The surface mesh\<close>

record Face =
  dx :: int
  dy :: int
  dz :: int
  normal :: "rat list"
  corners :: "rat list list"

definition faces :: "Face list" where
  "faces =
     [\<lparr>dx = - 1, dy = 0, dz = 0, normal = [- 1, 0, 0], corners =
        [[- 1 / 2, - 1 / 2, - 1 / 2], [- 1 / 2, 1 / 2, - 1 / 2],
         [- 1 / 2, 1 / 2, 1 / 2], [- 1 / 2, - 1 / 2, 1 / 2]]\<rparr>,
      \<lparr>dx = 1, dy = 0, dz = 0, normal = [1, 0, 0], corners =
        [[1 / 2, - 1 / 2, - 1 / 2], [1 / 2, - 1 / 2, 1 / 2],
         [1 / 2, 1 / 2, 1 / 2], [1 / 2, 1 / 2, - 1 / 2]]\<rparr>,
      \<lparr>dx = 0, dy = 0, dz = - 1, normal = [0, 0, - 1], corners =
        [[- 1 / 2, - 1 / 2, - 1 / 2], [- 1 / 2, 1 / 2, - 1 / 2],
         [1 / 2, 1 / 2, - 1 / 2], [1 / 2, - 1 / 2, - 1 / 2]]\<rparr>,
      \<lparr>dx = 0, dy = 0, dz = 1, normal = [0, 0, 1], corners =
        [[- 1 / 2, - 1 / 2, 1 / 2], [1 / 2, - 1 / 2, 1 / 2],
         [1 / 2, 1 / 2, 1 / 2], [- 1 / 2, 1 / 2, 1 / 2]]\<rparr>,
      \<lparr>dx = 0, dy = - 1, dz = 0, normal = [0, - 1, 0], corners =
        [[- 1 / 2, - 1 / 2, - 1 / 2], [1 / 2, - 1 / 2, - 1 / 2],
         [1 / 2, - 1 / 2, 1 / 2], [- 1 / 2, - 1 / 2, 1 / 2]]\<rparr>,
      \<lparr>dx = 0, dy = 1, dz = 0, normal = [0, 1, 0], corners =
        [[- 1 / 2, 1 / 2, - 1 / 2], [- 1 / 2, 1 / 2, 1 / 2],
         [1 / 2, 1 / 2, 1 / 2], [1 / 2, 1 / 2, - 1 / 2]]\<rparr>]"

record MeshArrays =
  vertices :: "rat list"
  indices :: "nat list"
  vertex_colors :: "jsnum list"
  normals :: "rat list"

text \<open>The neighbour across a face: the face's \<open>dz\<close> moves along the model's \<open>y\<close> and its
  \<open>dy\<close> along the model's \<open>z\<close>.\<close>

definition face_neighbor :: "Coords \<Rightarrow> Face \<Rightarrow> Coords" where
  "face_neighbor c f = \<lparr>cx = cx c + dx f, cy = cy c + dz f, cz = cz c + dy f\<rparr>"

definition isExposed :: "BlockModel \<Rightarrow> uint8 list \<Rightarrow> Coords \<Rightarrow> Face \<Rightarrow> bool" where
  "isExposed m mined c f =
     (let n = face_neighbor c f in
      if out_of_bounds m n then False
      else falsy_at mined (getBlockIndex (cx n) (cy n) (cz n) (nx m) (ny m)))"

text \<open>The four corners of a face, each with the block's colour and the face's normal.\<close>

definition add_corner :: "rat list \<Rightarrow> Color \<Rightarrow> Face \<Rightarrow> MeshArrays \<Rightarrow> rat list \<Rightarrow> MeshArrays" where
  "add_corner b col f a corner =
     a\<lparr>vertices := vertices a @ map2 (+) b corner,
       vertex_colors := vertex_colors a @ channels col,
       normals := normals a @ normal f\<rparr>"

text \<open>\<^verbatim>\<open>baseIndex = vertices.length / 3\<close>: the length is a multiple of 3 throughout.\<close>

definition add_face :: "BlockModel \<Rightarrow> uint8 list \<Rightarrow> Coords \<Rightarrow> Color \<Rightarrow> MeshArrays \<Rightarrow> Face \<Rightarrow> MeshArrays" where
  "add_face m mined c col a f =
     (if isExposed m mined c f then
        (let baseIndex = length (vertices a) div 3;
             a' = foldl (add_corner (render_position m c) col f) a (corners f)
         in a'\<lparr>indices := indices a' @
                 [baseIndex, baseIndex + 1, baseIndex + 2,
                  baseIndex, baseIndex + 2, baseIndex + 3]\<rparr>)
      else a)"

definition mesh_color :: "BlockModel \<Rightarrow> ColorScheme \<Rightarrow> Stats \<Rightarrow> nat \<Rightarrow> Color" where
  "mesh_color m scheme stats i =
     (case scheme of
        ByMined \<Rightarrow> setHex 0x22c55e
      | ByValue \<Rightarrow> valueToColor (Num (of_int (sint (block_values m ! i)))) (maxAbsValue stats))"

definition add_block :: "BlockModel \<Rightarrow> uint8 list \<Rightarrow> ColorScheme \<Rightarrow> Stats \<Rightarrow> MeshArrays \<Rightarrow> nat \<Rightarrow> MeshArrays" where
  "add_block m mined scheme stats a i =
     (if \<not> isBoundaryBlock (int i) m mined then a
      else foldl (add_face m mined (getBlockCoords (int i) (nx m) (ny m))
                   (mesh_color m scheme stats i)) a faces)"

definition SurfaceMesh :: "BlockModel \<Rightarrow> uint8 list \<Rightarrow> ColorScheme \<Rightarrow> MeshArrays" where
  "SurfaceMesh m mined scheme =
     foldl (add_block m mined scheme (calculateStats m (Some mined)))
       \<lparr>vertices = [], indices = [], vertex_colors = [], normals = []\<rparr>
       [0..<length (block_values m)]"

text \<open>\<^verbatim>\<open>Visualization3D\<close> shows the surface mesh when the surface-only toggle is set and
  a mask is there, and the block instances otherwise.\<close>

datatype Scene = SurfaceScene MeshArrays | BlockScene RenderSet

definition Visualization3D :: "ViewProps \<Rightarrow> Scene" where
  "Visualization3D p =
     (case minedBlocks p of
        Some mb \<Rightarrow>
          if showWireframe p then SurfaceScene (SurfaceMesh (blockModel p) mb (colorScheme p))
          else BlockScene (BlockInstances p)
      | None \<Rightarrow> BlockScene (BlockInstances p))"

subsection \<open>Exposed internal faces, in the words of the specification\<close>

text \<open>
  A face of a block is exposed when the block is mined and the neighbour across that face
  (one of the six directions) is in bounds and unmined. A block is mined when the mask
  holds a non-zero entry for it.
\<close>

definition directions :: "(int \<times> int \<times> int) list" where
  "directions = [(- 1, 0, 0), (1, 0, 0), (0, - 1, 0), (0, 1, 0), (0, 0, - 1), (0, 0, 1)]"

definition spec_in_bounds :: "BlockModel \<Rightarrow> int \<times> int \<times> int \<Rightarrow> bool" where
  "spec_in_bounds m c =
     (case c of (x, y, z) \<Rightarrow> 0 \<le> x \<and> x < nx m \<and> 0 \<le> y \<and> y < ny m \<and> 0 \<le> z \<and> z < nz m)"

definition spec_mined :: "uint8 list \<Rightarrow> int \<Rightarrow> bool" where
  "spec_mined mined i = (0 \<le> i \<and> i < int (length mined) \<and> mined ! nat i \<noteq> 0)"

definition spec_exposed_face :: "BlockModel \<Rightarrow> uint8 list \<Rightarrow> nat \<Rightarrow> int \<times> int \<times> int \<Rightarrow> bool" where
  "spec_exposed_face m mined i d =
     (case d of (a, b, c) \<Rightarrow>
        (let co = getBlockCoords (int i) (nx m) (ny m);
             n = (cx co + a, cy co + b, cz co + c)
         in spec_mined mined (int i) \<and> spec_in_bounds m n \<and>
            \<not> spec_mined mined (getBlockIndex (cx co + a) (cy co + b) (cz co + c) (nx m) (ny m))))"

definition spec_exposed_faces :: "BlockModel \<Rightarrow> uint8 list \<Rightarrow> (nat \<times> int \<times> int \<times> int) list" where
  "spec_exposed_faces m mined =
     filter (\<lambda>(i, d). spec_exposed_face m mined i d)
       (List.product [0..<length (block_values m)] directions)"

subsection \<open>Strings and \<^verbatim>\<open>parseInt\<close>\<close>

text \<open>
  Strings are lists of 8-bit characters. \<open>is_space\<close> holds the white space and the line
  terminators below code 256 that \<^verbatim>\<open>trim\<close> and \<^verbatim>\<open>parseInt\<close> strip (the Unicode
  spaces beyond are outside the model).
\<close>

definition is_space :: "char \<Rightarrow> bool" where
  "is_space c = ((of_char c :: nat) \<in> {9, 10, 11, 12, 13, 32, 160})"

definition trim :: "string \<Rightarrow> string" where
  "trim s = rev (dropWhile is_space (rev (dropWhile is_space s)))"

text \<open>\<^verbatim>\<open>s.split('\n')\<close>: at least one piece, one more than there are newlines.\<close>

fun split_lines :: "string \<Rightarrow> string list" where
  "split_lines [] = [[]]"
| "split_lines (c # cs) =
     (if c = CHR 0x0A then [] # split_lines cs
      else (case split_lines cs of [] \<Rightarrow> [[c]] | l # ls \<Rightarrow> (c # l) # ls))"

definition is_digit :: "char \<Rightarrow> bool" where
  "is_digit c = (48 \<le> (of_char c :: nat) \<and> (of_char c :: nat) \<le> 57)"

definition digit_value :: "char \<Rightarrow> nat" where
  "digit_value c = of_char c - 48"

definition decimal :: "string \<Rightarrow> nat" where
  "decimal ds = foldl (\<lambda>a d. 10 * a + digit_value d) 0 ds"

text \<open>
  \<^verbatim>\<open>parseInt(s, 10)\<close>: leading white space is skipped, one sign is read, then the longest
  run of decimal digits; whatever follows is ignored. No digit gives \<^verbatim>\<open>NaN\<close>, which is
  \<open>None\<close> here.
\<close>

definition parseInt :: "string \<Rightarrow> int option" where
  "parseInt s =
     (let s1 = dropWhile is_space s;
          (sign, s2) =
            (case s1 of
               [] \<Rightarrow> (1, [])
             | c # cs \<Rightarrow>
                 if c = CHR ''-'' then (- 1, cs)
                 else if c = CHR ''+'' then (1, cs)
                 else (1, s1));
          ds = takeWhile is_digit s2
      in if ds = [] then None else Some (sign * int (decimal ds)))"

subsection \<open>The file parser\<close>

datatype error =
  DimensionMismatch int nat
| InvalidValue nat string
| InvalidArrayLength

text \<open>The loop of \<^verbatim>\<open>parseDatFile\<close> from line \<open>i\<close> on; storing into an
  \<^verbatim>\<open>Int32Array\<close> wraps the value to 32 bits.\<close>

function parse_loop :: "string list \<Rightarrow> nat \<Rightarrow> nat \<Rightarrow> int32 list \<Rightarrow> error + int32 list" where
  "parse_loop lines expectedBlocks i vals =
     (if i < expectedBlocks then
        (case parseInt (trim (lines ! i)) of
           None \<Rightarrow> Inl (InvalidValue (i + 1) (lines ! i))
         | Some v \<Rightarrow> parse_loop lines expectedBlocks (i + 1) (vals[i := word_of_int v]))
      else Inr vals)"
  by pat_completeness auto
termination
  by (relation "measure (\<lambda>(lines, expectedBlocks, i, vals). expectedBlocks - i)") auto

declare parse_loop.simps [simp del]

definition parseDatFile :: "string \<Rightarrow> int \<Rightarrow> int \<Rightarrow> int \<Rightarrow> error + BlockModel" where
  "parseDatFile content nx' ny' nz' =
     (let lines = split_lines (trim content);
          expectedBlocks = nx' * ny' * nz'
      in if int (length lines) \<noteq> expectedBlocks
         then Inl (DimensionMismatch expectedBlocks (length lines))
         else
           (case parse_loop lines (length lines) 0 (replicate (length lines) 0) of
              Inl e \<Rightarrow> Inl e
            | Inr vals \<Rightarrow> Inr \<lparr>nx = nx', ny = ny', nz = nz', block_values = vals\<rparr>))"

text \<open>A text that begins with a decimal digit, or with one sign and then a digit.\<close>

definition signed_digit_prefix :: "string \<Rightarrow> bool" where
  "signed_digit_prefix s =
     (case s of
        [] \<Rightarrow> False
      | c # cs \<Rightarrow>
          if c = CHR ''-'' \<or> c = CHR ''+'' then (case cs of [] \<Rightarrow> False | d # _ \<Rightarrow> is_digit d)
          else is_digit c)"

subsection \<open>Reading the solver's output file\<close>

text \<open>
  The part of \<^verbatim>\<open>runMineflow\<close> after the solver has exited with code 0: the output file
  holds one block index per line. (Spawning the solver, the clock and the value parsed
  from its standard output are outside the model.)
\<close>

record MinedResult =
  result_minedBlocks :: "uint8 list"
  numBlocksMined :: nat

definition mined_step :: "int \<Rightarrow> MinedResult \<Rightarrow> string \<Rightarrow> MinedResult" where
  "mined_step numBlocks st line =
     (case parseInt (trim line) of
        None \<Rightarrow> st
      | Some blockIndex \<Rightarrow>
          if 0 \<le> blockIndex \<and> blockIndex < numBlocks
          then \<lparr>result_minedBlocks = (result_minedBlocks st)[nat blockIndex := 1],
                numBlocksMined = numBlocksMined st + 1\<rparr>
          else st)"

text \<open>\<^verbatim>\<open>new Uint8Array(numBlocks)\<close> throws for a negative length.\<close>

definition runMineflow_output :: "string \<Rightarrow> int \<Rightarrow> int \<Rightarrow> int \<Rightarrow> error + MinedResult" where
  "runMineflow_output outputContent nx' ny' nz' =
     (let lines = split_lines (trim outputContent);
          numBlocks = nx' * ny' * nz'
      in if numBlocks < 0 then Inl InvalidArrayLength
         else Inr (foldl (mined_step numBlocks)
                    \<lparr>result_minedBlocks = replicate (nat numBlocks) 0, numBlocksMined = 0\<rparr>
                    lines))"

text \<open>The in-range block indices of the lines, in order and with repetitions.\<close>

definition valid_indices :: "int \<Rightarrow> string list \<Rightarrow> int list" where
  "valid_indices numBlocks lines =
     filter (\<lambda>b. 0 \<le> b \<and> b < numBlocks) (List.map_filter (\<lambda>l. parseInt (trim l)) lines)"

section \<open>Grid indexing\<close>

lemma js_rem_nonneg: "0 \<le> a \<Longrightarrow> 0 < b \<Longrightarrow> js_rem a b = a mod b"
  by (cases "a = 0") (simp_all add: js_rem_def)

text \<open>
  C1. For positive dimensions and every in-range coordinate \<open>(x, y, z)\<close>,
  \<open>getBlockCoords (getBlockIndex x y z nx ny) nx ny\<close> is \<open>(x, y, z)\<close> again.
\<close>

theorem getBlockCoords_getBlockIndex:
  assumes "0 < nx'" "0 < ny'" "0 < nz'"
    and "0 \<le> x" "x < nx'" "0 \<le> y" "y < ny'" "0 \<le> z" "z < nz'"
  shows "getBlockCoords (getBlockIndex x y z nx' ny') nx' ny' = \<lparr>cx = x, cy = y, cz = z\<rparr>"
proof -
  let ?i = "x + y * nx' + z * nx' * ny'"
  have i_nonneg: "0 \<le> ?i" using assms by simp
  have i_eq: "?i = x + nx' * (y + ny' * z)" by (simp add: algebra_simps)
  have q: "?i div nx' = y + ny' * z"
    using assms by (simp add: i_eq)
  have q_nonneg: "0 \<le> y + ny' * z" using assms by simp
  have r: "?i mod nx' = x"
    using assms by (simp add: i_eq)
  have y': "(y + ny' * z) mod ny' = y" using assms by simp
  have xy: "0 \<le> x + y * nx'" using assms by simp
  have "x + y * nx' \<le> (nx' - 1) + (ny' - 1) * nx'"
    using assms by (intro add_mono mult_right_mono) simp_all
  then have xy_lt: "x + y * nx' < nx' * ny'" by (simp add: algebra_simps)
  have P: "nx' * ny' \<noteq> 0" using assms by simp
  have "?i div (nx' * ny') = ((x + y * nx') + (nx' * ny') * z) div (nx' * ny')"
    by (simp add: algebra_simps)
  also have "\<dots> = (x + y * nx') div (nx' * ny') + z"
    using div_mult_self2 [OF P, of "x + y * nx'" z] by simp
  also have "\<dots> = z"
    using xy xy_lt by simp
  finally have z': "?i div (nx' * ny') = z" .
  show ?thesis
    unfolding getBlockCoords_def getBlockIndex_def
    using i_nonneg q_nonneg assms q r y' z'
    by (simp add: js_rem_nonneg)
qed

theorem getBlockCoords_getBlockIndex_witness:
  "getBlockCoords (getBlockIndex 1 2 3 4 5) 4 5 = \<lparr>cx = 1, cy = 2, cz = 3\<rparr>"
  using getBlockCoords_getBlockIndex [of 4 5 6 1 2 3] by simp

section \<open>Boundary blocks\<close>

text \<open>
  C4 (as the code has it). On the 2x2x1 grid with mined mask \<open>[1,1,0,1]\<close>, block 1 sits
  at \<open>(1,0,0)\<close>; its in-bounds neighbours are blocks 0 and 3, both mined, and block 2 at
  \<open>(0,1,0)\<close> is diagonal to it. \<open>isBoundaryBlock\<close> is false at index 1.
\<close>

theorem isBoundaryBlock_scenario_B_counterexample:
  "\<not> isBoundaryBlock 1 \<lparr>nx = 2, ny = 2, nz = 1, block_values = [10, -5, 3, -1]\<rparr> [1, 1, 0, 1]"
  by (simp add: isBoundaryBlock_def falsy_at_def arr_get_def getBlockCoords_def
      getBlockIndex_def neighbors_def out_of_bounds_def js_rem_def)

text \<open>
  C4 (amended). On that grid and mask \<open>isBoundaryBlock\<close> is false at index 1 and at the
  unmined index 2, and true at indices 0 and 3, the two blocks that have the unmined
  block 2 as an in-bounds neighbour.
\<close>

theorem isBoundaryBlock_scenario_B:
  "map (\<lambda>i. isBoundaryBlock i \<lparr>nx = 2, ny = 2, nz = 1, block_values = [10, -5, 3, -1]\<rparr>
         [1, 1, 0, 1]) [0, 1, 2, 3]
   = [True, False, False, True]"
  by (simp add: isBoundaryBlock_def falsy_at_def arr_get_def getBlockCoords_def
      getBlockIndex_def neighbors_def out_of_bounds_def js_rem_def)

section \<open>Colour mapping\<close>

text \<open>
  C6 (what the code does). The file \<^verbatim>\<open>0\<close> loads as a 1x1x1 model whose only value is
  zero. A model whose values are all zero has \<open>maxAbsValue = 0\<close>, and
  \<open>valueToColor\<close> divides by it without a guard: \<open>0 / 0\<close> is \<^verbatim>\<open>NaN\<close>, every
  comparison with it is false, the last branch is taken and the green channel of the
  colour is \<^verbatim>\<open>NaN\<close>, also in the render set built for that model. The zero end of the scale, yellow \<open>(1, 1, 0)\<close>, is what a
  value of \<open>0\<close> maps to under any positive \<open>maxAbsValue\<close>.
\<close>

theorem valueToColor_zero_maxAbsValue:
  "parseDatFile ''0'' 1 1 1 = Inr \<lparr>nx = 1, ny = 1, nz = 1, block_values = [0]\<rparr> \<and>
   maxAbsValue (calculateStats \<lparr>nx = 1, ny = 1, nz = 1, block_values = [0]\<rparr> None) = Num 0 \<and>
   valueToColor (Num 0) (Num 0) = Color (Num 0) NaN (Num 1) \<and>
   colors (BlockInstances
     \<lparr>blockModel = \<lparr>nx = 1, ny = 1, nz = 1, block_values = [0]\<rparr>, minedBlocks = None,
      viewMode = All, currentLayer = None, sliceDimension = Z, colorScheme = ByValue,
      showWireframe = False\<rparr>) = [Num 0, NaN, Num 1] \<and>
   valueToColor (Num 0) (Num 1) = Color (Num 1) (Num 1) (Num 0)"
proof -
  let ?m = "\<lparr>nx = 1, ny = 1, nz = 1, block_values = [0]\<rparr>"
  let ?p = "\<lparr>blockModel = ?m, minedBlocks = None,
      viewMode = All, currentLayer = None, sliceDimension = Z, colorScheme = ByValue,
      showWireframe = False\<rparr>"
  have load: "parseDatFile ''0'' 1 1 1 = Inr ?m"
    by code_simp
  have stats: "calculateStats ?m None =
      \<lparr>minValue = Num 0, maxValue = Num 0, maxAbsValue = Num 0, totalValue = 0,
       averageValue = Num 0, positiveCount = 0, negativeCount = 0, minedValue = 0,
       minedCount = 0\<rparr>"
    by (simp add: calculateStats_def stats_step_def stats_init_def js_min_def js_max_def)
  have nan: "valueToColor (Num 0) (Num 0) = Color (Num 0) NaN (Num 1)"
    by (simp add: valueToColor_def inf_of_sign_def js_sub_def)
  have yellow: "valueToColor (Num 0) (Num 1) = Color (Num 1) (Num 1) (Num 0)"
    by (simp add: valueToColor_def js_sub_def)
  have sk: "skipFactor ?p = 1"
    by (simp add: skipFactor_def MAX_BLOCKS_TO_RENDER_def)
  have ns: "\<not> skip_block ?p 0"
    by (simp add: skip_block_def)
  have col: "instance_color ?p (calculateStats ?m None) 0 = Color (Num 0) NaN (Num 1)"
    by (simp add: instance_color_def stats nan)
  have "colors (BlockInstances ?p) = [Num 0, NaN, Num 1]"
    apply (simp add: BlockInstances_def Let_def)
    apply (subst render_loop.simps)
    apply (simp add: MAX_BLOCKS_TO_RENDER_def ns sk)
    apply (subst render_loop.simps)
    apply (simp add: emit_block_def col [simplified])
    done
  with load stats nan yellow show ?thesis by simp
qed

text \<open>
  C7. The colour is continuous at the segment breakpoints. With \<open>t = v / M\<close> the
  normalised value (\<open>M > 0\<close>): on the negative half every channel is within
  \<open>3 * |t + 0.5|\<close> of bright red \<open>(1, 0, 0)\<close>, the end of the first segment and the
  start of the second; on the positive half within \<open>3 * |t - 0.33|\<close> of green
  \<open>(0.5, 1, 0)\<close> and within \<open>3 * |t - 0.67|\<close> of cyan \<open>(0, 1, 1)\<close>. So the colour
  tends to the same limit from both sides of each breakpoint and takes it there.
  (Arithmetic is exact here; the rounding of doubles is not modelled.)
\<close>

theorem valueToColor_continuous_at_breakpoints:
  assumes "0 < M" and "t = v / M"
  shows "(t < 0 \<longrightarrow>
            colors_within (3 * \<bar>t - (- 1 / 2)\<bar>) (valueToColor (Num v) (Num M))
              (Color (Num 1) (Num 0) (Num 0))) \<and>
         (0 \<le> t \<longrightarrow>
            colors_within (3 * \<bar>t - 33 / 100\<bar>) (valueToColor (Num v) (Num M))
              (Color (Num (1 / 2)) (Num 1) (Num 0))) \<and>
         (0 \<le> t \<longrightarrow>
            colors_within (3 * \<bar>t - 67 / 100\<bar>) (valueToColor (Num v) (Num M))
              (Color (Num 0) (Num 1) (Num 1)))"
proof -
  have n: "js_div (Num v) (Num M) = Num t" using assms by simp
  show ?thesis
    unfolding valueToColor_def n Let_def js_sub_def
    by (auto simp add: abs_if field_simps)
qed

theorem valueToColor_continuous_at_breakpoints_witness:
  "colors_within 0 (valueToColor (Num (- 1)) (Num 2)) (Color (Num 1) (Num 0) (Num 0)) \<and>
   colors_within (3 / 100) (valueToColor (Num (- 49)) (Num 100)) (Color (Num 1) (Num 0) (Num 0)) \<and>
   colors_within 0 (valueToColor (Num 33) (Num 100)) (Color (Num (1 / 2)) (Num 1) (Num 0)) \<and>
   colors_within (3 / 100) (valueToColor (Num 32) (Num 100)) (Color (Num (1 / 2)) (Num 1) (Num 0)) \<and>
   colors_within 0 (valueToColor (Num 67) (Num 100)) (Color (Num 0) (Num 1) (Num 1)) \<and>
   colors_within (3 / 100) (valueToColor (Num 66) (Num 100)) (Color (Num 0) (Num 1) (Num 1))"
  using valueToColor_continuous_at_breakpoints [of 2 "- 1 / 2" "- 1"]
    valueToColor_continuous_at_breakpoints [of 100 "- 49 / 100" "- 49"]
    valueToColor_continuous_at_breakpoints [of 100 "33 / 100" 33]
    valueToColor_continuous_at_breakpoints [of 100 "32 / 100" 32]
    valueToColor_continuous_at_breakpoints [of 100 "67 / 100" 67]
    valueToColor_continuous_at_breakpoints [of 100 "66 / 100" 66]
  by simp

section \<open>Statistics\<close>


lemma stats_step_fields:
  "minValue' (stats_step m mined a i) = js_min (minValue' a) (Num (of_int (sint (block_values m ! i))))"
  "maxValue' (stats_step m mined a i) = js_max (maxValue' a) (Num (of_int (sint (block_values m ! i))))"
  "totalValue' (stats_step m mined a i) = totalValue' a + sint (block_values m ! i)"
  "positiveCount' (stats_step m mined a i) =
     (if 0 < sint (block_values m ! i) then positiveCount' a + 1 else positiveCount' a)"
  "negativeCount' (stats_step m mined a i) =
     (if sint (block_values m ! i) < 0 then negativeCount' a + 1 else negativeCount' a)"
  by (simp_all add: stats_step_def Let_def del: of_int_sint split: option.split)

lemma stats_upto_0: "stats_upto m mined 0 = stats_init"
  by (simp add: stats_upto_def)

lemma stats_upto_Suc: "stats_upto m mined (Suc k) = stats_step m mined (stats_upto m mined k) k"
  by (simp add: stats_upto_def)

lemma js_min_Num: "js_min (Num a) (Num b) = Num (min a b)" "js_min PosInf (Num b) = Num b"
  by (auto simp add: js_min_def)

lemma js_max_Num: "js_max (Num a) (Num b) = Num (max a b)" "js_max NegInf (Num b) = Num b"
  by (auto simp add: js_max_def)

lemma take_Suc_set: "k < length xs \<Longrightarrow> set (take (Suc k) xs) = insert (xs ! k) (set (take k xs))"
  by (simp add: take_Suc_conv_app_nth)

lemma stats_upto_min:
  "k \<le> length (block_values m) \<Longrightarrow>
   minValue' (stats_upto m mined k) =
     (if k = 0 then PosInf else Num (of_int (Min (sint ` set (take k (block_values m))))))"
proof (induction k)
  case 0
  then show ?case by (simp add: stats_upto_0 stats_init_def)
next
  case (Suc k)
  then have k: "k < length (block_values m)" by simp
  show ?case
  proof (cases "k = 0")
    case True
    with k show ?thesis
      by (simp add: stats_upto_Suc stats_upto_0 stats_step_fields stats_init_def js_min_Num take_Suc_set del: of_int_sint)
  next
    case False
    then have ne: "sint ` set (take k (block_values m)) \<noteq> {}" using k by auto
    from Suc False k show ?thesis
      using ne by (simp add: stats_upto_Suc stats_step_fields js_min_Num take_Suc_set min.commute del: of_int_sint)
  qed
qed

lemma stats_upto_max:
  "k \<le> length (block_values m) \<Longrightarrow>
   maxValue' (stats_upto m mined k) =
     (if k = 0 then NegInf else Num (of_int (Max (sint ` set (take k (block_values m))))))"
proof (induction k)
  case 0
  then show ?case by (simp add: stats_upto_0 stats_init_def)
next
  case (Suc k)
  then have k: "k < length (block_values m)" by simp
  show ?case
  proof (cases "k = 0")
    case True
    with k show ?thesis
      by (simp add: stats_upto_Suc stats_upto_0 stats_step_fields stats_init_def js_max_Num take_Suc_set del: of_int_sint)
  next
    case False
    then have ne: "sint ` set (take k (block_values m)) \<noteq> {}" using k by auto
    from Suc False k show ?thesis
      using ne by (simp add: stats_upto_Suc stats_step_fields js_max_Num take_Suc_set max.commute del: of_int_sint)
  qed
qed

lemma stats_upto_total:
  "k \<le> length (block_values m) \<Longrightarrow>
   totalValue' (stats_upto m mined k) = sum_list (map sint (take k (block_values m)))"
  by (induction k) (simp_all add: stats_upto_0 stats_upto_Suc stats_init_def stats_step_fields take_Suc_conv_app_nth)

lemma stats_upto_positive:
  "k \<le> length (block_values m) \<Longrightarrow>
   positiveCount' (stats_upto m mined k) = length (filter (\<lambda>v. 0 < sint v) (take k (block_values m)))"
  by (induction k) (simp_all add: stats_upto_0 stats_upto_Suc stats_init_def stats_step_fields take_Suc_conv_app_nth)

lemma stats_upto_negative:
  "k \<le> length (block_values m) \<Longrightarrow>
   negativeCount' (stats_upto m mined k) = length (filter (\<lambda>v. sint v < 0) (take k (block_values m)))"
  by (induction k) (simp_all add: stats_upto_0 stats_upto_Suc stats_init_def stats_step_fields take_Suc_conv_app_nth)


text \<open>
  C8 (what the code does on an empty model). \<open>calculateStats\<close> has no failure branch:
  with no values the loop body never runs and the initial values are returned, with an
  average of \<open>0 / 0\<close>.
\<close>

theorem calculateStats_empty_counterexample:
  "calculateStats \<lparr>nx = 0, ny = 0, nz = 0, block_values = []\<rparr> None =
     \<lparr>minValue = PosInf, maxValue = NegInf, maxAbsValue = PosInf, totalValue = 0,
      averageValue = NaN, positiveCount = 0, negativeCount = 0, minedValue = 0,
      minedCount = 0\<rparr>"
  by (simp add: calculateStats_def stats_init_def js_max_def inf_of_sign_def)

text \<open>
  C8 (amended). \<open>calculateStats\<close> always returns. On a model with no values it returns
  min \<open>+Infinity\<close>, max \<open>-Infinity\<close>, maxAbsValue \<open>Infinity\<close>, sum 0, average \<^verbatim>\<open>NaN\<close>
  and zero counts. On every model with values it returns the minimum, the maximum,
  \<open>maxAbsValue = max |min| |max|\<close>, the sum, \<open>average = sum / count\<close> and the numbers of
  positive and of negative values, from one pass over the values.
\<close>

theorem calculateStats_result:
  "(block_values m = [] \<longrightarrow>
      calculateStats m mined =
        \<lparr>minValue = PosInf, maxValue = NegInf, maxAbsValue = PosInf, totalValue = 0,
         averageValue = NaN, positiveCount = 0, negativeCount = 0, minedValue = 0,
         minedCount = 0\<rparr>) \<and>
   (block_values m \<noteq> [] \<longrightarrow>
      (let xs = map sint (block_values m); s = calculateStats m mined in
       minValue s = Num (of_int (Min (set xs))) \<and>
       maxValue s = Num (of_int (Max (set xs))) \<and>
       maxAbsValue s = Num (of_int (max \<bar>Min (set xs)\<bar> \<bar>Max (set xs)\<bar>)) \<and>
       totalValue s = sum_list xs \<and>
       averageValue s = Num (of_int (sum_list xs) / of_nat (length xs)) \<and>
       positiveCount s = length (filter (\<lambda>v. 0 < v) xs) \<and>
       negativeCount s = length (filter (\<lambda>v. v < 0) xs)))"
proof (intro conjI impI)
  assume "block_values m = []"
  then show "calculateStats m mined =
        \<lparr>minValue = PosInf, maxValue = NegInf, maxAbsValue = PosInf, totalValue = 0,
         averageValue = NaN, positiveCount = 0, negativeCount = 0, minedValue = 0,
         minedCount = 0\<rparr>"
    by (simp add: calculateStats_def stats_init_def js_max_def inf_of_sign_def)
next
  assume ne: "block_values m \<noteq> []"
  let ?n = "length (block_values m)"
  have n: "?n \<noteq> 0" using ne by simp
  have a: "foldl (stats_step m mined) stats_init [0..<?n] = stats_upto m mined ?n"
    by (simp add: stats_upto_def)
  show "let xs = map sint (block_values m); s = calculateStats m mined in
       minValue s = Num (of_int (Min (set xs))) \<and>
       maxValue s = Num (of_int (Max (set xs))) \<and>
       maxAbsValue s = Num (of_int (max \<bar>Min (set xs)\<bar> \<bar>Max (set xs)\<bar>)) \<and>
       totalValue s = sum_list xs \<and>
       averageValue s = Num (of_int (sum_list xs) / of_nat (length xs)) \<and>
       positiveCount s = length (filter (\<lambda>v. 0 < v) xs) \<and>
       negativeCount s = length (filter (\<lambda>v. v < 0) xs)"
    using n
    by (simp add: calculateStats_def Let_def a stats_upto_min stats_upto_max stats_upto_total
        stats_upto_positive stats_upto_negative js_max_Num filter_map comp_def)
qed


theorem calculateStats_result_witness:
  "calculateStats \<lparr>nx = 0, ny = 0, nz = 0, block_values = []\<rparr> (Some []) =
     \<lparr>minValue = PosInf, maxValue = NegInf, maxAbsValue = PosInf, totalValue = 0,
      averageValue = NaN, positiveCount = 0, negativeCount = 0, minedValue = 0,
      minedCount = 0\<rparr> \<and>
   (let s = calculateStats \<lparr>nx = 2, ny = 2, nz = 1, block_values = [10, - 5, 3, - 1]\<rparr> None in
    minValue s = Num (- 5) \<and> maxValue s = Num 10 \<and> maxAbsValue s = Num 10 \<and>
    totalValue s = 7 \<and> averageValue s = Num (7 / 4) \<and>
    positiveCount s = 2 \<and> negativeCount s = 2)"
  using calculateStats_result [of "\<lparr>nx = 0, ny = 0, nz = 0, block_values = []\<rparr>" "Some []"]
    calculateStats_result [of "\<lparr>nx = 2, ny = 2, nz = 1, block_values = [10, - 5, 3, - 1]\<rparr>" None]
  by (simp add: Let_def)

section \<open>The render set\<close>

lemma ceil_div_eq:
  assumes b: "0 < b"
  shows "ceil_div a b = (a + b - 1) div b"
proof -
  define q where "q = (a + b - 1) div b"
  define r where "r = (a + b - 1) mod b"
  have split: "a + b - 1 = q * b + r" by (simp add: q_def r_def)
  have r: "r < b" using b by (simp add: r_def)
  have up: "a \<le> q * b" using split r b by linarith
  have lo: "q * b < a + b" using split r b by linarith
  have up': "(of_nat a :: rat) / of_nat b \<le> of_int (int q)"
  proof -
    have "(of_nat a :: rat) \<le> of_nat (q * b)" using up by (simp only: of_nat_le_iff)
    then show ?thesis using b by (simp add: field_simps)
  qed
  have lo': "of_int (int q) - 1 < (of_nat a :: rat) / of_nat b"
  proof -
    have "(of_nat (q * b) :: rat) < of_nat (a + b)" using lo by (simp only: of_nat_less_iff)
    then show ?thesis using b by (simp add: field_simps)
  qed
  have "\<lceil>(of_nat a :: rat) / of_nat b\<rceil> = int q"
    using lo' up' by (rule ceiling_unique)
  then show ?thesis by (simp add: ceil_div_def q_def)
qed

lemma ceil_div_step:
  assumes "0 < s" "i < n"
  shows "ceil_div (n - i) s = Suc (ceil_div (n - (i + s)) s)"
proof (cases "n < i + s")
  case True
  then have a: "n - (i + s) = 0" by simp
  define B where "B = n - i - 1"
  have "n - i + s - 1 = B + s" using assms by (simp add: B_def)
  moreover have "B < s" using True assms by (simp add: B_def)
  ultimately have "(n - i + s - 1) div s = 1" using assms by simp
  then show ?thesis using assms a by (simp add: ceil_div_eq)
next
  case False
  define A where "A = n - (i + s) + s - 1"
  have "n - i + s - 1 = A + s" using False assms by (simp add: A_def)
  then have "(n - i + s - 1) div s = Suc (A div s)" using assms by simp
  then show ?thesis using assms by (simp add: ceil_div_eq A_def)
qed

lemma ceil_div_0: "0 < s \<Longrightarrow> ceil_div 0 s = 0"
  by (simp add: ceil_div_eq)

lemma ceil_div_1: "ceil_div n 1 = n" "ceil_div n (Suc 0) = n"
  by (simp_all add: ceil_div_eq)

lemma ceil_div_bound:
  assumes "0 < m" "m < n"
  shows "ceil_div n (ceil_div n m) \<le> m"
proof -
  define s where "s = ceil_div n m"
  have s: "s = (n + m - 1) div m" using assms by (simp add: s_def ceil_div_eq)
  have "n \<le> s * m"
  proof -
    have "n + m - 1 = s * m + (n + m - 1) mod m" by (simp add: s)
    moreover have "(n + m - 1) mod m < m" using assms by simp
    ultimately show ?thesis using assms by linarith
  qed
  moreover have spos: "0 < s" using assms by (simp add: s div_greater_zero_iff)
  ultimately have "n + s - 1 < (m + 1) * s" by (simp add: algebra_simps)
  then have "(n + s - 1) div s < m + 1"
    using spos by (simp add: less_mult_imp_div_less)
  then show ?thesis using spos by (simp add: ceil_div_eq s_def)
qed

lemma stride_indices_Nil: "0 < s \<Longrightarrow> n \<le> i \<Longrightarrow> stride_indices s i n = []"
  by (simp add: stride_indices_def ceil_div_0)

lemma stride_indices_Cons:
  assumes "0 < s" "i < n"
  shows "stride_indices s i n = i # stride_indices s (i + s) n"
proof -
  have "[0..<Suc m] = 0 # map Suc [0..<m]" for m
    by (simp add: upt_conv_Cons map_Suc_upt del: upt_Suc)
  then show ?thesis
    using assms by (simp add: stride_indices_def ceil_div_step [of s i n] comp_def algebra_simps del: upt_Suc)
qed

lemma stride_indices_1: "stride_indices 1 0 n = [0..<n]" "stride_indices (Suc 0) 0 n = [0..<n]"
  by (simp_all add: stride_indices_def ceil_div_1 map_idI)

lemma length_stride_indices: "length (stride_indices s 0 n) = ceil_div n s"
  by (simp add: stride_indices_def)

lemma emit_block_fields:
  "indexMapping (emit_block p stats i st) = indexMapping st @ [i]"
  "blocksRendered (emit_block p stats i st) = Suc (blocksRendered st)"
  by (simp_all add: emit_block_def)

lemma render_loop_end:
  "\<not> i < length (block_values (blockModel p)) \<Longrightarrow> render_loop p stats i st = st"
  by (subst render_loop.simps) simp

lemma render_loop_cap:
  "currentLayer p = None \<Longrightarrow> MAX_BLOCKS_TO_RENDER \<le> blocksRendered st \<Longrightarrow>
   render_loop p stats i st = st"
  by (subst render_loop.simps) simp

lemma render_loop_skip:
  "i < length (block_values (blockModel p)) \<Longrightarrow>
   \<not> (currentLayer p = None \<and> MAX_BLOCKS_TO_RENDER \<le> blocksRendered st) \<Longrightarrow>
   skip_block p i \<Longrightarrow>
   render_loop p stats i st = render_loop p stats (i + skipFactor p) st"
  by (subst render_loop.simps) auto

lemma render_loop_emit:
  "i < length (block_values (blockModel p)) \<Longrightarrow>
   \<not> (currentLayer p = None \<and> MAX_BLOCKS_TO_RENDER \<le> blocksRendered st) \<Longrightarrow>
   \<not> skip_block p i \<Longrightarrow>
   render_loop p stats i st = render_loop p stats (i + skipFactor p) (emit_block p stats i st)"
  by (subst render_loop.simps) auto

lemma render_loop_result:
  "indexMapping (render_loop p stats i st) =
     indexMapping st @
       (if currentLayer p = None
        then take (MAX_BLOCKS_TO_RENDER - blocksRendered st) (shown_from p i)
        else shown_from p i) \<and>
   blocksRendered (render_loop p stats i st) =
     blocksRendered st +
       length (if currentLayer p = None
        then take (MAX_BLOCKS_TO_RENDER - blocksRendered st) (shown_from p i)
        else shown_from p i)"
proof (induction p stats i st rule: render_loop.induct)
  case (1 p stats i st)
  let ?n = "length (block_values (blockModel p))"
  note pos = skipFactor_pos [of p]
  show ?case
  proof (cases "i < ?n")
    case False
    then have "shown_from p i = []"
      using pos by (simp add: shown_from_def stride_indices_Nil)
    with False show ?thesis by (simp add: render_loop_end)
  next
    case True
    note lt = True
    have cons: "shown_from p i =
        (if skip_block p i then shown_from p (i + skipFactor p)
         else i # shown_from p (i + skipFactor p))"
      using pos lt by (simp add: shown_from_def stride_indices_Cons)
    show ?thesis
    proof (cases "currentLayer p = None \<and> MAX_BLOCKS_TO_RENDER \<le> blocksRendered st")
      case True
      then show ?thesis by (simp add: render_loop_cap)
    next
      case False
      note nocap = False
      show ?thesis
      proof (cases "skip_block p i")
        case True
        show ?thesis
          unfolding render_loop_skip [OF lt nocap True]
          using "1.IH"(1) [OF lt nocap True] True by (simp add: cons)
      next
        case False
        have less: "currentLayer p = None \<Longrightarrow> blocksRendered st < MAX_BLOCKS_TO_RENDER"
          using nocap by simp
        have tk: "currentLayer p = None \<Longrightarrow>
            take (MAX_BLOCKS_TO_RENDER - blocksRendered st) (i # xs) =
            i # take (MAX_BLOCKS_TO_RENDER - Suc (blocksRendered st)) xs" for xs
        proof -
          assume "currentLayer p = None"
          then have "MAX_BLOCKS_TO_RENDER - blocksRendered st =
              Suc (MAX_BLOCKS_TO_RENDER - Suc (blocksRendered st))"
            using less by simp
          then show "take (MAX_BLOCKS_TO_RENDER - blocksRendered st) (i # xs) =
              i # take (MAX_BLOCKS_TO_RENDER - Suc (blocksRendered st)) xs"
            by simp
        qed
        show ?thesis
          unfolding render_loop_emit [OF lt nocap False]
          using "1.IH"(2) [OF lt nocap False] False
          by (simp add: cons emit_block_fields tk)
      qed
    qed
  qed
qed

lemma BlockInstances_indexMapping:
  "instanceToBlockIndex (BlockInstances p) =
     (if currentLayer p = None then take MAX_BLOCKS_TO_RENDER (shown_from p 0)
      else shown_from p 0)"
  "count (BlockInstances p) =
     length (if currentLayer p = None then take MAX_BLOCKS_TO_RENDER (shown_from p 0)
      else shown_from p 0)"
  by (simp_all add: BlockInstances_def Let_def render_loop_result)

lemma skipFactor_filtered:
  "currentLayer p \<noteq> None \<or> viewMode p \<noteq> All \<Longrightarrow> skipFactor p = 1"
  by (auto simp add: skipFactor_def Let_def)

lemma skipFactor_unfiltered:
  "currentLayer p = None \<Longrightarrow> viewMode p = All \<Longrightarrow>
   skipFactor p =
     (if length (block_values (blockModel p)) \<le> MAX_BLOCKS_TO_RENDER then 1
      else ceil_div (length (block_values (blockModel p))) MAX_BLOCKS_TO_RENDER)"
  by (simp add: skipFactor_def Let_def)

lemma stride_count_le_cap:
  assumes "currentLayer p = None" "viewMode p = All"
  shows "ceil_div (length (block_values (blockModel p))) (skipFactor p) \<le> MAX_BLOCKS_TO_RENDER"
proof (cases "length (block_values (blockModel p)) \<le> MAX_BLOCKS_TO_RENDER")
  case True
  then show ?thesis using assms by (simp add: skipFactor_unfiltered ceil_div_1)
next
  case False
  then show ?thesis
    using assms ceil_div_bound [of MAX_BLOCKS_TO_RENDER "length (block_values (blockModel p))"]
    by (simp add: skipFactor_unfiltered MAX_BLOCKS_TO_RENDER_def)
qed

text \<open>
  C2. Whenever \<open>Visualization3D\<close> builds the render set with no layer selected and view
  mode \<open>All\<close>, the stride is 1 for at most \<open>MAX = 100000\<close> blocks and \<open>ceil (total / MAX)\<close>
  otherwise; the blocks emitted are exactly every stride-th index, ascending, and there
  are \<open>ceil (total / stride)\<close> of them (the cap is never reached). For 250000 blocks the
  stride is 3 and 83334 instances are emitted.
\<close>

theorem BlockInstances_subsampling:
  assumes "Visualization3D p = BlockScene rs"
    and "currentLayer p = None" and "viewMode p = All"
  shows "skipFactor p =
           (if length (block_values (blockModel p)) \<le> MAX_BLOCKS_TO_RENDER then 1
            else ceil_div (length (block_values (blockModel p))) MAX_BLOCKS_TO_RENDER) \<and>
         instanceToBlockIndex rs =
           map (\<lambda>k. k * skipFactor p)
             [0..<ceil_div (length (block_values (blockModel p))) (skipFactor p)] \<and>
         count rs = ceil_div (length (block_values (blockModel p))) (skipFactor p) \<and>
         (length (block_values (blockModel p)) = 250000 \<longrightarrow>
            skipFactor p = 3 \<and> count rs = 83334)"
proof -
  let ?n = "length (block_values (blockModel p))"
  from assms(1) have rs: "rs = BlockInstances p"
    and nw: "minedBlocks p = None \<or> \<not> showWireframe p"
    by (auto simp add: Visualization3D_def split: option.splits if_splits)
  have noskip: "\<not> skip_block p j" for j
    using nw assms(2,3) by (auto simp add: skip_block_def Let_def split: option.splits)
  have shown: "shown_from p 0 = stride_indices (skipFactor p) 0 ?n"
    by (simp add: shown_from_def noskip)
  have len: "length (stride_indices (skipFactor p) 0 ?n) \<le> MAX_BLOCKS_TO_RENDER"
    using stride_count_le_cap [OF assms(2,3)] by (simp add: length_stride_indices)
  have idx: "instanceToBlockIndex rs =
      map (\<lambda>k. k * skipFactor p) [0..<ceil_div ?n (skipFactor p)]"
    using len assms(2) by (simp add: rs BlockInstances_indexMapping shown stride_indices_def)
  have cnt: "count rs = ceil_div ?n (skipFactor p)"
    using len assms(2) by (simp add: rs BlockInstances_indexMapping shown length_stride_indices)
  have sk: "skipFactor p = (if ?n \<le> MAX_BLOCKS_TO_RENDER then 1 else ceil_div ?n MAX_BLOCKS_TO_RENDER)"
    using assms(2,3) by (rule skipFactor_unfiltered)
  have c3: "ceil_div 250000 MAX_BLOCKS_TO_RENDER = 3"
    by (simp add: ceil_div_eq MAX_BLOCKS_TO_RENDER_def)
  have c4: "ceil_div 250000 3 = 83334"
    by (simp add: ceil_div_eq)
  have big: "?n = 250000 \<longrightarrow> skipFactor p = 3 \<and> count rs = 83334"
    using sk cnt c3 c4 by (simp add: MAX_BLOCKS_TO_RENDER_def)
  from sk idx cnt big show ?thesis by blast
qed

theorem BlockInstances_subsampling_witness:
  "skipFactor big_props = 3 \<and>
   count (BlockInstances big_props) = 83334 \<and>
   instanceToBlockIndex (BlockInstances big_props) = map (\<lambda>k. k * 3) [0..<83334]"
proof -
  have h1: "Visualization3D big_props = BlockScene (BlockInstances big_props)"
    by (simp add: Visualization3D_def big_props_def)
  have h2: "currentLayer big_props = None" and h3: "viewMode big_props = All"
    by (simp_all add: big_props_def)
  have n: "length (block_values (blockModel big_props)) = 250000"
    by (simp add: big_props_def)
  have c4: "ceil_div 250000 3 = 83334"
    by (simp add: ceil_div_eq)
  from BlockInstances_subsampling [OF h1 h2 h3]
  have idx: "instanceToBlockIndex (BlockInstances big_props) =
      map (\<lambda>k. k * skipFactor big_props) [0..<ceil_div 250000 (skipFactor big_props)]"
    and sk: "skipFactor big_props = 3" and cnt: "count (BlockInstances big_props) = 83334"
    unfolding n by blast+
  from idx cnt show ?thesis
    unfolding sk c4 by simp
qed

section \<open>The surface mesh\<close>

lemma falsy_at_spec_mined: "falsy_at mined i = (\<not> spec_mined mined i)"
  by (auto simp add: falsy_at_def arr_get_def spec_mined_def)

lemma add_corner_indices: "indices (foldl (add_corner b col f) a cs) = indices a"
  by (induction cs arbitrary: a) (simp_all add: add_corner_def)

lemma add_face_indices:
  "length (indices (add_face m mined c col a f)) =
     length (indices a) + (if isExposed m mined c f then 6 else 0)"
  by (simp add: add_face_def Let_def add_corner_indices)

lemma foldl_add_face_indices:
  "length (indices (foldl (add_face m mined c col) a fs)) =
     length (indices a) + 6 * length (filter (isExposed m mined c) fs)"
  by (induction fs arbitrary: a) (simp_all add: add_face_indices)

lemma exposed_faces_directions:
  "\<not> falsy_at mined (int i) \<Longrightarrow>
   map (isExposed m mined (getBlockCoords (int i) (nx m) (ny m))) faces =
   map (spec_exposed_face m mined i) directions"
  by (simp add: faces_def directions_def isExposed_def face_neighbor_def spec_exposed_face_def
      spec_in_bounds_def out_of_bounds_def Let_def falsy_at_spec_mined not_le not_less)

lemma length_filter_map_eq:
  "map P xs = map Q ys \<Longrightarrow> length (filter P xs) = length (filter Q ys)"
proof -
  assume "map P xs = map Q ys"
  then have "filter id (map P xs) = filter id (map Q ys)" by simp
  then have "length (filter id (map P xs)) = length (filter id (map Q ys))" by simp
  then show ?thesis by (simp add: filter_map comp_def)
qed

lemma neighbor_loop_iff:
  "neighbor_loop m mined ns \<longleftrightarrow>
     (\<exists>n \<in> set ns. \<not> out_of_bounds m n \<and>
        falsy_at mined (getBlockIndex (cx n) (cy n) (cz n) (nx m) (ny m)))"
  by (induction ns) auto

lemma neighbors_directions:
  "neighbors c = map (\<lambda>(a, b, c'). \<lparr>cx = cx c + a, cy = cy c + b, cz = cz c + c'\<rparr>) directions"
  by (simp add: neighbors_def directions_def)

lemma out_of_bounds_spec:
  "out_of_bounds m \<lparr>cx = x, cy = y, cz = z\<rparr> = (\<not> spec_in_bounds m (x, y, z))"
  by (auto simp add: out_of_bounds_def spec_in_bounds_def)

lemma isBoundaryBlock_iff:
  "isBoundaryBlock (int i) m mined \<longleftrightarrow>
     (\<exists>d \<in> set directions. spec_exposed_face m mined i d)"
proof (cases "falsy_at mined (int i)")
  case True
  then show ?thesis
    by (simp add: isBoundaryBlock_def spec_exposed_face_def falsy_at_spec_mined Let_def
        split: prod.splits)
next
  case False
  then have "isBoundaryBlock (int i) m mined \<longleftrightarrow>
      (\<exists>d \<in> set directions. case d of (a, b, c') \<Rightarrow>
         let co = getBlockCoords (int i) (nx m) (ny m) in
         \<not> out_of_bounds m \<lparr>cx = cx co + a, cy = cy co + b, cz = cz co + c'\<rparr> \<and>
         falsy_at mined (getBlockIndex (cx co + a) (cy co + b) (cz co + c') (nx m) (ny m)))"
    by (simp add: isBoundaryBlock_def neighbor_loop_iff neighbors_directions Let_def
        split_beta)
  also have "\<dots> \<longleftrightarrow> (\<exists>d \<in> set directions. spec_exposed_face m mined i d)"
    using False
    by (simp add: spec_exposed_face_def out_of_bounds_spec falsy_at_spec_mined Let_def split_beta)
  finally show ?thesis .
qed

lemma add_block_indices:
  "length (indices (add_block m mined scheme stats a i)) =
     length (indices a) + 6 * length (filter (spec_exposed_face m mined i) directions)"
proof (cases "isBoundaryBlock (int i) m mined")
  case True
  then have "\<not> falsy_at mined (int i)" by (auto simp add: isBoundaryBlock_def split: if_splits)
  then have "length (filter (isExposed m mined (getBlockCoords (int i) (nx m) (ny m))) faces) =
      length (filter (spec_exposed_face m mined i) directions)"
    by (intro length_filter_map_eq exposed_faces_directions)
  with True show ?thesis by (simp add: add_block_def foldl_add_face_indices)
next
  case False
  then have "filter (spec_exposed_face m mined i) directions = []"
    by (simp add: isBoundaryBlock_iff filter_empty_conv)
  with False show ?thesis by (simp add: add_block_def)
qed

lemma foldl_add_block_indices:
  "length (indices (foldl (add_block m mined scheme stats) a js)) =
     length (indices a) +
     6 * sum_list (map (\<lambda>i. length (filter (spec_exposed_face m mined i) directions)) js)"
  by (induction js arbitrary: a) (simp_all add: add_block_indices algebra_simps)

lemma length_filter_product:
  "length (filter (\<lambda>(i, d). P i d) (List.product xs ys)) =
     sum_list (map (\<lambda>i. length (filter (P i) ys)) xs)"
  by (induction xs) (simp_all add: filter_map comp_def)

text \<open>
  C5 (what the code does). On the 2x2x1 grid with mask \<open>[1,1,0,1]\<close> there are two exposed
  internal faces (block 0 towards block 2, block 3 towards block 2) and the mesh has four
  triangles: every exposed face is a quad of two triangles.
\<close>

theorem SurfaceMesh_triangles_counterexample:
  "length (indices (SurfaceMesh \<lparr>nx = 2, ny = 2, nz = 1, block_values = [10, - 5, 3, - 1]\<rparr>
      [1, 1, 0, 1] ByValue)) div 3 = 4 \<and>
   spec_exposed_faces \<lparr>nx = 2, ny = 2, nz = 1, block_values = [10, - 5, 3, - 1]\<rparr> [1, 1, 0, 1]
     = [(0, (0, 1, 0)), (3, (- 1, 0, 0))]"
  by code_simp

text \<open>
  C5 (amended). For every block model of positive dimensions and every mask, the number of
  triangles of the surface mesh (a third of the index list) is twice the number of exposed
  internal faces; a block adds one quad (six indices) for each of its exposed faces, between
  0 and 6 of them; and a face whose neighbour is out of bounds adds nothing.
\<close>

theorem SurfaceMesh_triangles:
  assumes "0 < nx m" and "0 < ny m"
  shows "length (indices (SurfaceMesh m mined scheme)) div 3 =
           2 * length (spec_exposed_faces m mined) \<and>
         length (indices (add_block m mined scheme stats a i)) =
           length (indices a) + 6 * length (filter (spec_exposed_face m mined i) directions) \<and>
         length (filter (spec_exposed_face m mined i) directions) \<le> 6 \<and>
         (out_of_bounds m (face_neighbor c f) \<longrightarrow> add_face m mined c col a f = a)"
proof -
  have tri: "length (indices (SurfaceMesh m mined scheme)) = 6 * length (spec_exposed_faces m mined)"
    by (simp add: SurfaceMesh_def foldl_add_block_indices spec_exposed_faces_def length_filter_product)
  have six: "length (filter (spec_exposed_face m mined i) directions) \<le> length directions"
    by (rule length_filter_le)
  have oob: "out_of_bounds m (face_neighbor c f) \<longrightarrow> add_face m mined c col a f = a"
    by (simp add: add_face_def isExposed_def)
  from tri six oob show ?thesis
    by (simp add: add_block_indices directions_def)
qed

theorem SurfaceMesh_triangles_witness:
  "length (indices (SurfaceMesh \<lparr>nx = 2, ny = 2, nz = 1, block_values = [10, - 5, 3, - 1]\<rparr>
      [1, 1, 0, 1] ByMined)) div 3 = 4 \<and>
   length (indices (add_block \<lparr>nx = 2, ny = 2, nz = 1, block_values = [10, - 5, 3, - 1]\<rparr>
      [1, 1, 0, 1] ByMined
      (calculateStats \<lparr>nx = 2, ny = 2, nz = 1, block_values = [10, - 5, 3, - 1]\<rparr> None)
      \<lparr>vertices = [], indices = [], vertex_colors = [], normals = []\<rparr> 0)) = 6 \<and>
   add_face \<lparr>nx = 2, ny = 2, nz = 1, block_values = [10, - 5, 3, - 1]\<rparr> [1, 1, 0, 1]
      \<lparr>cx = 0, cy = 0, cz = 0\<rparr> (setHex 0)
      \<lparr>vertices = [], indices = [], vertex_colors = [], normals = []\<rparr> (hd faces)
     = \<lparr>vertices = [], indices = [], vertex_colors = [], normals = []\<rparr>"
proof -
  let ?m = "\<lparr>nx = 2, ny = 2, nz = 1, block_values = [10, - 5, 3, - 1]\<rparr>"
  have faces: "spec_exposed_faces ?m [1, 1, 0, 1] = [(0, (0, 1, 0)), (3, (- 1, 0, 0))]"
    by code_simp
  have block0: "filter (spec_exposed_face ?m [1, 1, 0, 1] 0) directions = [(0, 1, 0)]"
    by code_simp
  have oob: "out_of_bounds ?m (face_neighbor \<lparr>cx = 0, cy = 0, cz = 0\<rparr> (hd faces))"
    by (simp add: out_of_bounds_def face_neighbor_def faces_def)
  show ?thesis
    using SurfaceMesh_triangles [of ?m "[1, 1, 0, 1]" ByMined "calculateStats ?m None"
        "\<lparr>vertices = [], indices = [], vertex_colors = [], normals = []\<rparr>" 0
        "\<lparr>cx = 0, cy = 0, cz = 0\<rparr>" "hd faces" "setHex 0"]
    by (simp add: faces block0 oob)
qed

section \<open>Enumeration under a slice, a view filter and the surface-only toggle\<close>

lemma SurfaceMesh_indices_all_blocks:
  "length (indices (SurfaceMesh m mined scheme)) = 6 * length (spec_exposed_faces m mined)"
  by (simp add: SurfaceMesh_def foldl_add_block_indices spec_exposed_faces_def length_filter_product)

text \<open>
  C3 (what the code does). With view mode \<open>Mined\<close>, no layer and the toggle off,
  \<open>Visualization3D\<close> builds the render set; the stride is 1, but the loop stops at the
  cap: of 100001 mined blocks, all of which pass the filters, only 100000 are emitted.
\<close>

theorem view_filter_cap_counterexample:
  "Visualization3D
     \<lparr>blockModel = \<lparr>nx = 100001, ny = 1, nz = 1, block_values = replicate 100001 0\<rparr>,
      minedBlocks = Some (replicate 100001 1), viewMode = Mined, currentLayer = None,
      sliceDimension = Z, colorScheme = ByValue, showWireframe = False\<rparr> =
   BlockScene (BlockInstances
     \<lparr>blockModel = \<lparr>nx = 100001, ny = 1, nz = 1, block_values = replicate 100001 0\<rparr>,
      minedBlocks = Some (replicate 100001 1), viewMode = Mined, currentLayer = None,
      sliceDimension = Z, colorScheme = ByValue, showWireframe = False\<rparr>) \<and>
   length (filter (\<lambda>i. \<not> skip_block
     \<lparr>blockModel = \<lparr>nx = 100001, ny = 1, nz = 1, block_values = replicate 100001 0\<rparr>,
      minedBlocks = Some (replicate 100001 1), viewMode = Mined, currentLayer = None,
      sliceDimension = Z, colorScheme = ByValue, showWireframe = False\<rparr> i) [0..<100001]) = 100001 \<and>
   count (BlockInstances
     \<lparr>blockModel = \<lparr>nx = 100001, ny = 1, nz = 1, block_values = replicate 100001 0\<rparr>,
      minedBlocks = Some (replicate 100001 1), viewMode = Mined, currentLayer = None,
      sliceDimension = Z, colorScheme = ByValue, showWireframe = False\<rparr>) = 100000"
proof -
  let ?p = "\<lparr>blockModel = \<lparr>nx = 100001, ny = 1, nz = 1, block_values = replicate 100001 0\<rparr>,
      minedBlocks = Some (replicate 100001 1), viewMode = Mined, currentLayer = None,
      sliceDimension = Z, colorScheme = ByValue, showWireframe = False\<rparr>"
  have scene: "Visualization3D ?p = BlockScene (BlockInstances ?p)"
    by (simp add: Visualization3D_def)
  have sk: "skipFactor ?p = 1" by (simp add: skipFactor_def)
  have keep: "\<not> skip_block ?p i" if "i < 100001" for i
    using that by (simp add: skip_block_def is_one_at_def arr_get_def Let_def)
  have all: "filter (\<lambda>i. \<not> skip_block ?p i) [0..<100001] = [0..<100001]"
    using keep by (simp del: upt_rec_numeral)
  have "shown_from ?p 0 = filter (\<lambda>i. \<not> skip_block ?p i) [0..<100001]"
    by (simp add: shown_from_def sk stride_indices_1 del: upt_rec_numeral)
  then have shown: "shown_from ?p 0 = [0..<100001]"
    by (simp only: all)
  have cnt: "count (BlockInstances ?p) = 100000"
    using shown by (simp add: BlockInstances_indexMapping MAX_BLOCKS_TO_RENDER_def del: upt_rec_numeral)
  have len: "length (filter (\<lambda>i. \<not> skip_block ?p i) [0..<100001]) = 100001"
    unfolding all by simp
  from scene len cnt show ?thesis by blast
qed

text \<open>
  C3 (amended). In every render set that \<open>Visualization3D\<close> builds: with a layer selected
  the stride is 1 and every block is visited, so the emitted indices are all those the
  filters keep, however many; with no layer and a view mode other than \<open>All\<close> the stride
  is 1 and the emitted indices are the first \<open>MAX\<close> of those the filters keep. With the
  surface-only toggle set and a mask, \<open>Visualization3D\<close> builds the surface mesh instead,
  which visits every block with no stride and no cap: it holds one quad (six indices) for
  each exposed face of each block.
\<close>

theorem Visualization3D_enumeration:
  "(Visualization3D p = BlockScene rs \<and> currentLayer p \<noteq> None \<longrightarrow>
      skipFactor p = 1 \<and>
      instanceToBlockIndex rs =
        filter (\<lambda>i. \<not> skip_block p i) [0..<length (block_values (blockModel p))]) \<and>
   (Visualization3D p = BlockScene rs \<and> currentLayer p = None \<and> viewMode p \<noteq> All \<longrightarrow>
      skipFactor p = 1 \<and>
      instanceToBlockIndex rs =
        take MAX_BLOCKS_TO_RENDER
          (filter (\<lambda>i. \<not> skip_block p i) [0..<length (block_values (blockModel p))])) \<and>
   (showWireframe p \<and> minedBlocks p = Some mb \<longrightarrow>
      Visualization3D p = SurfaceScene (SurfaceMesh (blockModel p) mb (colorScheme p)) \<and>
      length (indices (SurfaceMesh (blockModel p) mb (colorScheme p))) =
        6 * length (spec_exposed_faces (blockModel p) mb))"
proof (intro conjI impI)
  have one: "skipFactor p = 1 \<Longrightarrow>
      shown_from p 0 = filter (\<lambda>i. \<not> skip_block p i) [0..<length (block_values (blockModel p))]"
    by (simp add: shown_from_def stride_indices_1)
  have rs: "rs = BlockInstances p" if "Visualization3D p = BlockScene rs"
    using that by (auto simp add: Visualization3D_def split: option.splits if_splits)
  {
    assume a: "Visualization3D p = BlockScene rs \<and> currentLayer p \<noteq> None"
    then have sk: "skipFactor p = 1" by (simp add: skipFactor_filtered)
    then show "skipFactor p = 1" .
    from a rs have e: "rs = BlockInstances p" by blast
    from a have cl: "currentLayer p \<noteq> None" by blast
    show "instanceToBlockIndex rs =
        filter (\<lambda>i. \<not> skip_block p i) [0..<length (block_values (blockModel p))]"
      unfolding e BlockInstances_indexMapping one [OF sk] using cl by auto
  }
  {
    assume a: "Visualization3D p = BlockScene rs \<and> currentLayer p = None \<and> viewMode p \<noteq> All"
    then have sk: "skipFactor p = 1" by (simp add: skipFactor_filtered)
    then show "skipFactor p = 1" .
    from a rs have e: "rs = BlockInstances p" by blast
    from a have cl: "currentLayer p = None" by blast
    show "instanceToBlockIndex rs =
        take MAX_BLOCKS_TO_RENDER
          (filter (\<lambda>i. \<not> skip_block p i) [0..<length (block_values (blockModel p))])"
      unfolding e BlockInstances_indexMapping one [OF sk] using cl by simp
  }
  {
    assume a: "showWireframe p \<and> minedBlocks p = Some mb"
    then show "Visualization3D p = SurfaceScene (SurfaceMesh (blockModel p) mb (colorScheme p))"
      by (simp add: Visualization3D_def)
    show "length (indices (SurfaceMesh (blockModel p) mb (colorScheme p))) =
        6 * length (spec_exposed_faces (blockModel p) mb)"
      by (rule SurfaceMesh_indices_all_blocks)
  }
qed

theorem Visualization3D_enumeration_witness:
  "instanceToBlockIndex (BlockInstances (scenario_props\<lparr>currentLayer := Some 0\<rparr>)) = [0, 1] \<and>
   instanceToBlockIndex (BlockInstances (scenario_props\<lparr>viewMode := Mined\<rparr>)) = [0, 1, 3] \<and>
   Visualization3D (scenario_props\<lparr>showWireframe := True\<rparr>) =
     SurfaceScene (SurfaceMesh (blockModel scenario_props) [1, 1, 0, 1] ByValue) \<and>
   length (indices (SurfaceMesh (blockModel scenario_props) [1, 1, 0, 1] ByValue)) = 12"
proof -
  let ?a = "scenario_props\<lparr>currentLayer := Some 0\<rparr>"
  let ?b = "scenario_props\<lparr>viewMode := Mined\<rparr>"
  let ?c = "scenario_props\<lparr>showWireframe := True\<rparr>"
  have sa: "Visualization3D ?a = BlockScene (BlockInstances ?a) \<and> currentLayer ?a \<noteq> None"
    by (simp add: Visualization3D_def scenario_props_def)
  have sb: "Visualization3D ?b = BlockScene (BlockInstances ?b) \<and> currentLayer ?b = None \<and>
      viewMode ?b \<noteq> All"
    by (simp add: Visualization3D_def scenario_props_def)
  have sc: "showWireframe ?c \<and> minedBlocks ?c = Some [1, 1, 0, 1]"
    by (simp add: scenario_props_def)
  have fa: "filter (\<lambda>i. \<not> skip_block ?a i) [0..<length (block_values (blockModel ?a))] = [0, 1]"
    by (simp add: scenario_props_def skip_block_def getBlockCoords_def js_rem_def is_one_at_def
        arr_get_def Let_def)
  have fb: "take MAX_BLOCKS_TO_RENDER
      (filter (\<lambda>i. \<not> skip_block ?b i) [0..<length (block_values (blockModel ?b))]) = [0, 1, 3]"
    by (simp add: scenario_props_def skip_block_def getBlockCoords_def js_rem_def is_one_at_def
        arr_get_def MAX_BLOCKS_TO_RENDER_def Let_def)
  have faces: "spec_exposed_faces (blockModel scenario_props) [1, 1, 0, 1] =
      [(0, (0, 1, 0)), (3, (- 1, 0, 0))]"
    unfolding scenario_props_def by code_simp
  have bm: "blockModel ?c = blockModel scenario_props" "colorScheme ?c = ByValue"
    by (simp_all add: scenario_props_def)
  note A = Visualization3D_enumeration [where p = ?a and rs = "BlockInstances ?a" and mb = "[1, 1, 0, 1]"]
  note B = Visualization3D_enumeration [where p = ?b and rs = "BlockInstances ?b" and mb = "[1, 1, 0, 1]"]
  note C = Visualization3D_enumeration [where p = ?c and rs = "BlockInstances ?c" and mb = "[1, 1, 0, 1]"]
  from A sa have 1: "instanceToBlockIndex (BlockInstances ?a) = [0, 1]"
    unfolding fa by blast
  from B sb have 2: "instanceToBlockIndex (BlockInstances ?b) = [0, 1, 3]"
    unfolding fb by blast
  from C sc have 3: "Visualization3D ?c =
      SurfaceScene (SurfaceMesh (blockModel scenario_props) [1, 1, 0, 1] ByValue)"
    and 4: "length (indices (SurfaceMesh (blockModel scenario_props) [1, 1, 0, 1] ByValue)) =
      6 * length (spec_exposed_faces (blockModel scenario_props) [1, 1, 0, 1])"
    unfolding bm by blast+
  from 4 have 5: "length (indices (SurfaceMesh (blockModel scenario_props) [1, 1, 0, 1] ByValue)) = 12"
    unfolding faces by simp
  from 1 2 3 5 show ?thesis by blast
qed

section \<open>The file parser\<close>

lemma parse_loop_Inl:
  "parse_loop lines n i vals = Inl e \<Longrightarrow>
   \<exists>k. i \<le> k \<and> k < n \<and> e = InvalidValue (k + 1) (lines ! k) \<and>
       parseInt (trim (lines ! k)) = None"
proof (induction lines n i vals rule: parse_loop.induct)
  case (1 lines n i vals)
  show ?case
  proof (cases "i < n")
    case False
    with "1.prems" show ?thesis by (subst (asm) parse_loop.simps) simp
  next
    case True
    show ?thesis
    proof (cases "parseInt (trim (lines ! i))")
      case None
      with True "1.prems" have "e = InvalidValue (i + 1) (lines ! i)"
        by (subst (asm) parse_loop.simps) simp
      with None True show ?thesis by blast
    next
      case (Some v)
      with True "1.prems"
      have "parse_loop lines n (i + 1) (vals[i := word_of_int v]) = Inl e"
        by (subst (asm) parse_loop.simps) simp
      from "1.IH" [OF True Some this] obtain k where
        "i + 1 \<le> k" "k < n" "e = InvalidValue (k + 1) (lines ! k)"
        "parseInt (trim (lines ! k)) = None" by blast
      then show ?thesis by (intro exI [of _ k]) simp
    qed
  qed
qed

lemma parse_loop_Inr:
  "\<forall>k. i \<le> k \<and> k < n \<longrightarrow> parseInt (trim (lines ! k)) \<noteq> None \<Longrightarrow>
   length vals = n \<Longrightarrow>
   \<exists>vals'. parse_loop lines n i vals = Inr vals' \<and> length vals' = n \<and>
     (\<forall>k < i. vals' ! k = vals ! k) \<and>
     (\<forall>k. i \<le> k \<and> k < n \<longrightarrow> vals' ! k = word_of_int (the (parseInt (trim (lines ! k)))))"
proof (induction lines n i vals rule: parse_loop.induct)
  case (1 lines n i vals)
  show ?case
  proof (cases "i < n")
    case False
    then show ?thesis using "1.prems" by (subst parse_loop.simps) auto
  next
    case True
    with "1.prems"(1) obtain v where v: "parseInt (trim (lines ! i)) = Some v" by auto
    have eq: "parse_loop lines n i vals = parse_loop lines n (i + 1) (vals[i := word_of_int v])"
      using True v by (subst parse_loop.simps) simp
    have "\<forall>k. i + 1 \<le> k \<and> k < n \<longrightarrow> parseInt (trim (lines ! k)) \<noteq> None"
      using "1.prems"(1) by simp
    moreover have "length (vals[i := word_of_int v]) = n" using "1.prems"(2) by simp
    ultimately obtain vals' where r:
      "parse_loop lines n (i + 1) (vals[i := word_of_int v]) = Inr vals'"
      "length vals' = n"
      "\<forall>k < i + 1. vals' ! k = (vals[i := word_of_int v]) ! k"
      "\<forall>k. i + 1 \<le> k \<and> k < n \<longrightarrow> vals' ! k = word_of_int (the (parseInt (trim (lines ! k))))"
      using "1.IH" [OF True v] by blast
    have a: "\<forall>k < i. vals' ! k = vals ! k" using r(3) by simp
    have "vals' ! i = word_of_int v" using r(3) True "1.prems"(2) by simp
    then have b: "\<forall>k. i \<le> k \<and> k < n \<longrightarrow> vals' ! k = word_of_int (the (parseInt (trim (lines ! k))))"
      using r(4) v by (metis Suc_eq_plus1 Suc_leI le_neq_implies_less option.sel)
    from r(1,2) a b show ?thesis unfolding eq by blast
  qed
qed

lemma parseInt_Some_iff: "parseInt s \<noteq> None \<longleftrightarrow> signed_digit_prefix (dropWhile is_space s)"
proof (cases "dropWhile is_space s")
  case Nil
  show ?thesis by (simp add: Nil parseInt_def signed_digit_prefix_def)
next
  case (Cons c cs)
  have minus: "\<not> is_digit CHR ''-''" and plus: "\<not> is_digit CHR ''+''"
    by (simp_all add: is_digit_def)
  show ?thesis
  proof (cases "c = CHR ''-'' \<or> c = CHR ''+''")
    case True
    then show ?thesis using Cons
      by (cases cs) (auto simp add: parseInt_def signed_digit_prefix_def Let_def)
  next
    case False
    then show ?thesis using Cons
      by (auto simp add: parseInt_def signed_digit_prefix_def Let_def)
  qed
qed

lemma dropWhile_trim: "dropWhile is_space (trim s) = trim s"
proof -
  have "trim s = [] \<or> \<not> is_space (hd (trim s))"
  proof (cases "dropWhile is_space s")
    case Nil
    show ?thesis by (simp add: Nil trim_def)
  next
    case (Cons c cs)
    then have c: "\<not> is_space c" using hd_dropWhile [of is_space s] by auto
    define r where "r = dropWhile is_space (rev (c # cs))"
    have "rev (c # cs) = rev cs @ [c]" by simp
    then have "r = dropWhile is_space (rev cs) @ [c] \<or> r = [c]"
      using c by (auto simp add: r_def dropWhile_append)
    then have "hd (rev r) = c \<and> r \<noteq> []" by auto
    then show ?thesis using c by (simp add: trim_def Cons r_def)
  qed
  then show ?thesis by (cases "trim s") auto
qed

lemma parseInt_digits:
  assumes "ds \<noteq> []" "list_all is_digit ds" "rest = [] \<or> \<not> is_digit (hd rest)"
  shows "parseInt (ds @ rest) = Some (int (decimal ds))"
proof -
  obtain d ds' where ds: "ds = d # ds'" using assms(1) by (cases ds) auto
  have d: "is_digit d" using assms(2) ds by simp
  then have ns: "\<not> is_space d" and nm: "d \<noteq> CHR ''-''" and np: "d \<noteq> CHR ''+''"
    by (auto simp add: is_digit_def is_space_def)
  have tw: "takeWhile is_digit (ds @ rest) = ds"
    using assms(2,3) by (cases rest) (auto simp add: list_all_iff takeWhile_append)
  show ?thesis
    using ns nm np tw assms(1) by (simp add: parseInt_def ds Let_def)
qed

lemma split_lines_nonempty: "split_lines s \<noteq> []"
  by (induction s) (auto split: list.splits)

lemma parse_loop_length:
  "parse_loop lines n i vals = Inr vals' \<Longrightarrow> length vals' = length vals"
proof (induction lines n i vals rule: parse_loop.induct)
  case (1 lines n i vals)
  show ?case
  proof (cases "i < n")
    case False
    with "1.prems" show ?thesis by (subst (asm) parse_loop.simps) simp
  next
    case True
    show ?thesis
    proof (cases "parseInt (trim (lines ! i))")
      case None
      with True "1.prems" show ?thesis by (subst (asm) parse_loop.simps) simp
    next
      case (Some v)
      with True "1.prems"
      have "parse_loop lines n (i + 1) (vals[i := word_of_int v]) = Inr vals'"
        by (subst (asm) parse_loop.simps) simp
      from "1.IH" [OF True Some this] show ?thesis by simp
    qed
  qed
qed

text \<open>A model that \<open>parseDatFile\<close> returns has at least one value: the text splits into
  at least one line, and the line count must equal the number of blocks.\<close>

lemma parseDatFile_nonempty:
  "parseDatFile content nx' ny' nz' = Inr m \<Longrightarrow> block_values m \<noteq> []"
  by (auto simp add: parseDatFile_def Let_def split_lines_nonempty
      split: if_splits sum.splits dest!: parse_loop_length)

text \<open>
  C10. \<open>parseDatFile\<close> reports a malformed value (with the 1-based line number and the
  raw line) only for a line whose trimmed text \<open>parseInt\<close> maps to \<^verbatim>\<open>NaN\<close>. When the
  line count is right and every trimmed line begins with a decimal digit, or with one sign
  and then a digit, the file is accepted and each value is the \<open>parseInt\<close> of its line;
  \<open>parseInt\<close> is a number exactly for such texts, and it reads the leading digits and
  drops what follows them. So the line \<^verbatim>\<open>3.9\<close> is stored as 3.
\<close>

theorem parseDatFile_malformed_value:
  "(parseDatFile content nx' ny' nz' = Inl (InvalidValue n raw) \<longrightarrow>
      1 \<le> n \<and> n \<le> length (split_lines (trim content)) \<and>
      raw = split_lines (trim content) ! (n - 1) \<and> parseInt (trim raw) = None) \<and>
   (int (length (split_lines (trim content))) = nx' * ny' * nz' \<and>
    (\<forall>l \<in> set (split_lines (trim content)). signed_digit_prefix (trim l)) \<longrightarrow>
      parseDatFile content nx' ny' nz' =
        Inr \<lparr>nx = nx', ny = ny', nz = nz',
             block_values = map (\<lambda>l. word_of_int (the (parseInt (trim l))))
                              (split_lines (trim content))\<rparr>) \<and>
   (parseInt (trim l) \<noteq> None \<longleftrightarrow> signed_digit_prefix (trim l)) \<and>
   (ds \<noteq> [] \<and> list_all is_digit ds \<and> (rest = [] \<or> \<not> is_digit (hd rest)) \<longrightarrow>
      parseInt (ds @ rest) = Some (int (decimal ds))) \<and>
   parseDatFile ''3.9'' 1 1 1 = Inr \<lparr>nx = 1, ny = 1, nz = 1, block_values = [3]\<rparr>"
proof (intro conjI impI)
  let ?lines = "split_lines (trim content)"
  assume a: "parseDatFile content nx' ny' nz' = Inl (InvalidValue n raw)"
  then have "parse_loop ?lines (length ?lines) 0 (replicate (length ?lines) 0) = Inl (InvalidValue n raw)"
    by (auto simp add: parseDatFile_def Let_def split: if_splits sum.splits)
  from parse_loop_Inl [OF this] obtain k where
    k: "k < length ?lines" "InvalidValue n raw = InvalidValue (k + 1) (?lines ! k)"
      "parseInt (trim (?lines ! k)) = None" by blast
  then have "n = k + 1" "raw = ?lines ! k" by simp_all
  with k show "1 \<le> n" "n \<le> length ?lines" "raw = ?lines ! (n - 1)" "parseInt (trim raw) = None"
    by simp_all
next
  let ?lines = "split_lines (trim content)"
  assume b: "int (length ?lines) = nx' * ny' * nz' \<and> (\<forall>l \<in> set ?lines. signed_digit_prefix (trim l))"
  have "parseInt (trim (?lines ! k)) \<noteq> None" if "k < length ?lines" for k
    using b nth_mem [OF that] unfolding parseInt_Some_iff dropWhile_trim by blast
  then have all: "\<forall>k. 0 \<le> k \<and> k < length ?lines \<longrightarrow> parseInt (trim (?lines ! k)) \<noteq> None"
    by blast
  from parse_loop_Inr [OF all, of "replicate (length ?lines) 0"] obtain vals' where
    r: "parse_loop ?lines (length ?lines) 0 (replicate (length ?lines) 0) = Inr vals'"
      "length vals' = length ?lines"
      "\<forall>k. 0 \<le> k \<and> k < length ?lines \<longrightarrow>
         vals' ! k = word_of_int (the (parseInt (trim (?lines ! k))))"
    by auto
  have "vals' = map (\<lambda>l. word_of_int (the (parseInt (trim l)))) ?lines"
    using r(2,3) by (intro nth_equalityI) simp_all
  with r(1) b show "parseDatFile content nx' ny' nz' =
        Inr \<lparr>nx = nx', ny = ny', nz = nz',
             block_values = map (\<lambda>l. word_of_int (the (parseInt (trim l)))) ?lines\<rparr>"
    by (simp add: parseDatFile_def Let_def)
next
  show "(parseInt (trim l) \<noteq> None) = signed_digit_prefix (trim l)"
    by (simp only: parseInt_Some_iff dropWhile_trim)
next
  assume "ds \<noteq> [] \<and> list_all is_digit ds \<and> (rest = [] \<or> \<not> is_digit (hd rest))"
  then show "parseInt (ds @ rest) = Some (int (decimal ds))"
    by (intro parseInt_digits) simp_all
next
  show "parseDatFile ''3.9'' 1 1 1 = Inr \<lparr>nx = 1, ny = 1, nz = 1, block_values = [3]\<rparr>"
    by code_simp
qed

theorem parseDatFile_malformed_value_witness:
  "parseInt (trim ''x5'') = None \<and>
   parseDatFile ''10\<newline>-5\<newline> 3abc \<newline>-1\<newline>'' 2 2 1 =
     Inr \<lparr>nx = 2, ny = 2, nz = 1, block_values = [10, - 5, 3, - 1]\<rparr> \<and>
   signed_digit_prefix (trim '' 3abc '') \<and>
   parseInt ''39.5'' = Some 39"
proof -
  let ?c = "''10\<newline>-5\<newline> 3abc \<newline>-1\<newline>''"
  have bad: "parseDatFile ''10\<newline>x5'' 2 1 1 = Inl (InvalidValue 2 ''x5'')"
    by code_simp
  have lines: "split_lines (trim ?c) = [''10'', ''-5'', '' 3abc '', ''-1'']"
    by code_simp
  have ok: "\<forall>l \<in> set [''10'', ''-5'', '' 3abc '', ''-1'']. signed_digit_prefix (trim l)"
    by code_simp
  have "parseInt (trim ''10'') = Some 10" "parseInt (trim ''-5'') = Some (- 5)"
    "parseInt (trim '' 3abc '') = Some 3" "parseInt (trim ''-1'') = Some (- 1)"
    by (simp_all add: parseInt_def trim_def is_space_def is_digit_def decimal_def digit_value_def)
  then have vals: "map (\<lambda>l. word_of_int (the (parseInt (trim l)))) [''10'', ''-5'', '' 3abc '', ''-1'']
      = [10, - 5, 3, - 1 :: int32]"
    by simp
  have p3: "parseInt (trim '' 3abc '') \<noteq> None" by code_simp
  have dig: "list_all is_digit ''39''" "\<not> is_digit (hd ''.5'')" "decimal ''39'' = 39"
    by (simp_all add: is_digit_def decimal_def digit_value_def)
  have len: "int (length [''10'', ''-5'', '' 3abc '', ''-1'']) = 2 * 2 * 1" by simp
  note bad_case = parseDatFile_malformed_value
    [where content = "''10\<newline>x5''" and nx' = 2 and ny' = 1 and nz' = 1 and n = 2
       and raw = "''x5''" and l = "'' 3abc ''" and ds = "''39''" and rest = "''.5''"]
  note good_case = parseDatFile_malformed_value
    [where content = ?c and nx' = 2 and ny' = 2 and nz' = 1 and n = 2
       and raw = "''x5''" and l = "'' 3abc ''" and ds = "''39''" and rest = "''.5''",
     unfolded lines vals]
  from bad_case bad have 1: "parseInt (trim ''x5'') = None" by blast
  from good_case len ok
  have 2: "parseDatFile ?c 2 2 1 = Inr \<lparr>nx = 2, ny = 2, nz = 1, block_values = [10, - 5, 3, - 1]\<rparr>"
    by blast
  from bad_case p3 have 3: "signed_digit_prefix (trim '' 3abc '')" by blast
  have ne: "''39'' \<noteq> []" by simp
  have app: "''39'' @ ''.5'' = ''39.5''" by simp
  from bad_case ne dig(1,2) have "parseInt (''39'' @ ''.5'') = Some (int (decimal ''39''))"
    by blast
  then have 4: "parseInt ''39.5'' = Some 39" unfolding app dig(3) by simp
  from 1 2 3 4 show ?thesis by blast
qed

section \<open>The solver's output file\<close>

lemma valid_indices_Cons:
  "valid_indices N (l # ls) =
     (case parseInt (trim l) of
        None \<Rightarrow> valid_indices N ls
      | Some b \<Rightarrow> if 0 \<le> b \<and> b < N then b # valid_indices N ls else valid_indices N ls)"
  by (simp add: valid_indices_def List.map_filter_simps split: option.split)

lemma valid_indices_range: "b \<in> set (valid_indices N ls) \<Longrightarrow> 0 \<le> b \<and> b < N"
  unfolding valid_indices_def set_filter by blast

lemma mined_fold:
  "length arr = N \<Longrightarrow>
   foldl (mined_step (int N)) \<lparr>result_minedBlocks = arr, numBlocksMined = k\<rparr> ls =
     \<lparr>result_minedBlocks =
        map (\<lambda>j. if int j \<in> set (valid_indices (int N) ls) then 1 else arr ! j) [0..<N],
      numBlocksMined = k + length (valid_indices (int N) ls)\<rparr>"
proof (induction ls arbitrary: arr k)
  case Nil
  then have "map ((!) arr) [0..<N] = arr" using map_nth [of arr] by simp
  then show ?case by (simp add: valid_indices_def List.map_filter_simps)
next
  case (Cons l ls)
  show ?case
  proof (cases "\<exists>b. parseInt (trim l) = Some b \<and> 0 \<le> b \<and> b < int N")
    case False
    then have "mined_step (int N) \<lparr>result_minedBlocks = arr, numBlocksMined = k\<rparr> l =
        \<lparr>result_minedBlocks = arr, numBlocksMined = k\<rparr>"
      and "valid_indices (int N) (l # ls) = valid_indices (int N) ls"
      by (auto simp add: mined_step_def valid_indices_Cons split: option.splits)
    then show ?thesis using Cons.IH [OF Cons.prems] by simp
  next
    case True
    then obtain b where b: "parseInt (trim l) = Some b" "0 \<le> b" "b < int N" by blast
    have step: "mined_step (int N) \<lparr>result_minedBlocks = arr, numBlocksMined = k\<rparr> l =
        \<lparr>result_minedBlocks = arr[nat b := 1], numBlocksMined = k + 1\<rparr>"
      using b by (simp add: mined_step_def)
    have vi: "valid_indices (int N) (l # ls) = b # valid_indices (int N) ls"
      using b by (simp add: valid_indices_Cons)
    have len: "length (arr[nat b := 1]) = N" using Cons.prems by simp
    have "map (\<lambda>j. if int j \<in> set (valid_indices (int N) ls) then 1 else arr[nat b := 1] ! j) [0..<N]
        = map (\<lambda>j. if int j \<in> set (b # valid_indices (int N) ls) then 1 else arr ! j) [0..<N]"
      using b Cons.prems by (auto simp add: nth_list_update)
    then show ?thesis
      using Cons.IH [OF len, of "k + 1"] by (simp add: step vi)
  qed
qed

lemma ones_count:
  assumes "\<forall>b \<in> S. 0 \<le> b \<and> b < int N"
  shows "length (filter (\<lambda>v. v = (1 :: uint8)) (map (\<lambda>j. if int j \<in> S then 1 else 0) [0..<N])) = card S"
proof -
  have "length (filter (\<lambda>v. v = (1 :: uint8)) (map (\<lambda>j. if int j \<in> S then 1 else 0) [0..<N]))
      = length (filter (\<lambda>j. int j \<in> S) [0..<N])"
    by (simp add: filter_map comp_def)
  also have "\<dots> = card (set (filter (\<lambda>j. int j \<in> S) [0..<N]))"
    by (rule distinct_card [symmetric]) simp
  also have "\<dots> = card (int ` set (filter (\<lambda>j. int j \<in> S) [0..<N]))"
    by (rule card_image [symmetric]) simp
  also have "int ` set (filter (\<lambda>j. int j \<in> S) [0..<N]) = S"
  proof
    show "int ` set (filter (\<lambda>j. int j \<in> S) [0..<N]) \<subseteq> S" by auto
    show "S \<subseteq> int ` set (filter (\<lambda>j. int j \<in> S) [0..<N])"
    proof
      fix b assume b: "b \<in> S"
      with assms have "0 \<le> b" "b < int N" by auto
      then have "nat b \<in> set (filter (\<lambda>j. int j \<in> S) [0..<N])" using b by simp
      then have "int (nat b) \<in> int ` set (filter (\<lambda>j. int j \<in> S) [0..<N])" by (rule imageI)
      with \<open>0 \<le> b\<close> show "b \<in> int ` set (filter (\<lambda>j. int j \<in> S) [0..<N])" by simp
    qed
  qed
  finally show ?thesis .
qed

text \<open>
  C9. For a non-negative block count the output loop of \<open>runMineflow\<close> always returns.
  \<open>numBlocksMined\<close> is the number of lines that hold an in-range index, each line
  counted; the number of 1-entries of \<open>minedBlocks\<close> is the number of distinct such
  indices. So the count never falls below the number of 1-entries and exceeds it as soon
  as an in-range index is repeated. A line that is not a number, or whose index is out of
  range, leaves the state as it is.
\<close>

theorem runMineflow_counts_lines:
  assumes "0 \<le> nx' * ny' * nz'"
  shows "\<exists>r. runMineflow_output content nx' ny' nz' = Inr r \<and>
           numBlocksMined r =
             length (valid_indices (nx' * ny' * nz') (split_lines (trim content))) \<and>
           length (filter (\<lambda>v. v = 1) (result_minedBlocks r)) =
             card (set (valid_indices (nx' * ny' * nz') (split_lines (trim content)))) \<and>
           length (filter (\<lambda>v. v = 1) (result_minedBlocks r)) \<le> numBlocksMined r \<and>
           (\<not> distinct (valid_indices (nx' * ny' * nz') (split_lines (trim content))) \<longrightarrow>
              length (filter (\<lambda>v. v = 1) (result_minedBlocks r)) < numBlocksMined r) \<and>
           (parseInt (trim line) = None \<or>
            (\<exists>b. parseInt (trim line) = Some b \<and> (b < 0 \<or> nx' * ny' * nz' \<le> b)) \<longrightarrow>
              mined_step (nx' * ny' * nz') st line = st)"
proof -
  define N where "N = nat (nx' * ny' * nz')"
  have N: "nx' * ny' * nz' = int N" using assms by (simp add: N_def)
  let ?vi = "valid_indices (int N) (split_lines (trim content))"
  let ?r = "\<lparr>result_minedBlocks = map (\<lambda>j. if int j \<in> set ?vi then 1 else 0) [0..<N],
             numBlocksMined = length ?vi\<rparr>"
  have run: "runMineflow_output content nx' ny' nz' = Inr ?r"
    using mined_fold [of "replicate N 0" N 0 "split_lines (trim content)"]
    by (simp add: runMineflow_output_def Let_def N cong: map_cong)
  have ones: "length (filter (\<lambda>v. v = 1) (result_minedBlocks ?r)) = card (set ?vi)"
    using ones_count [of "set ?vi" N] valid_indices_range [of _ "int N"] by auto
  have le: "card (set ?vi) \<le> length ?vi" by (rule card_length)
  have lt: "\<not> distinct ?vi \<longrightarrow> card (set ?vi) < length ?vi"
    using le card_distinct [of ?vi] by (cases "card (set ?vi) = length ?vi") auto
  have skip: "parseInt (trim line) = None \<or>
            (\<exists>b. parseInt (trim line) = Some b \<and> (b < 0 \<or> int N \<le> b)) \<longrightarrow>
              mined_step (int N) st line = st"
    by (auto simp add: mined_step_def)
  show ?thesis
    unfolding N using run ones le lt skip by (intro exI [of _ ?r]) simp
qed

theorem runMineflow_counts_lines_witness:
  "\<exists>r. runMineflow_output ''0\<newline>0\<newline>abc\<newline>7'' 1 1 1 = Inr r \<and>
       numBlocksMined r = 2 \<and>
       length (filter (\<lambda>v. v = 1) (result_minedBlocks r)) = 1"
proof -
  have vi: "valid_indices (1 * 1 * 1) (split_lines (trim ''0\<newline>0\<newline>abc\<newline>7'')) = [0, 0]"
    by code_simp
  from runMineflow_counts_lines [of 1 1 1 "''0\<newline>0\<newline>abc\<newline>7''" "''abc''"
      "\<lparr>result_minedBlocks = [], numBlocksMined = 0\<rparr>"]
  obtain r where "runMineflow_output ''0\<newline>0\<newline>abc\<newline>7'' 1 1 1 = Inr r"
    "numBlocksMined r = length [0, 0 :: int]"
    "length (filter (\<lambda>v. v = 1) (result_minedBlocks r)) = card (set [0, 0 :: int])"
    unfolding vi by auto
  then show ?thesis by (intro exI [of _ r]) simp
qed

end
